theory Spec2Isabelle
  imports Complex_Main "HOL-Library.Char_ord" "HOL-Library.List_Lexorder"
begin

section \<open>Numbers\<close>

text \<open>
  The tracker of \<^verbatim>\<open>src/components/VisionSystem.tsx\<close> computes on JavaScript
  numbers. Finite numbers are modelled as \<^typ>\<open>real\<close>: rounding, overflow and the sign
  of zero are left out, a zero is the positive zero, and \<^verbatim>\<open>Math.tan\<close> is the real
  tangent. The one quotient whose divisor a bounding box can make zero (the depth
  estimate) is computed on \<open>jsnum\<close>, which adds the two infinities and NaN with the IEEE
  rules of division, \<^verbatim>\<open>Math.min\<close> and \<^verbatim>\<open>Math.max\<close>. Clock readings
  (\<^verbatim>\<open>Date.now()\<close>) are integers, track ids are naturals.
\<close>

datatype jsnum = Fin real | PInf | NInf | NaN

fun js_div :: "jsnum \<Rightarrow> jsnum \<Rightarrow> jsnum" where
  "js_div (Fin a) (Fin b) =
     (if b \<noteq> 0 then Fin (a / b)
      else if 0 < a then PInf else if a < 0 then NInf else NaN)"
| "js_div (Fin a) PInf = Fin 0"
| "js_div (Fin a) NInf = Fin 0"
| "js_div PInf (Fin b) = (if 0 \<le> b then PInf else NInf)"
| "js_div NInf (Fin b) = (if 0 \<le> b then NInf else PInf)"
| "js_div PInf PInf = NaN"
| "js_div PInf NInf = NaN"
| "js_div NInf PInf = NaN"
| "js_div NInf NInf = NaN"
| "js_div NaN b = NaN"
| "js_div a NaN = NaN"

fun js_min :: "jsnum \<Rightarrow> jsnum \<Rightarrow> jsnum" where
  "js_min NaN b = NaN"
| "js_min a NaN = NaN"
| "js_min NInf b = NInf"
| "js_min a NInf = NInf"
| "js_min PInf b = b"
| "js_min a PInf = a"
| "js_min (Fin a) (Fin b) = Fin (min a b)"

fun js_max :: "jsnum \<Rightarrow> jsnum \<Rightarrow> jsnum" where
  "js_max NaN b = NaN"
| "js_max a NaN = NaN"
| "js_max PInf b = PInf"
| "js_max a PInf = PInf"
| "js_max NInf b = b"
| "js_max a NInf = a"
| "js_max (Fin a) (Fin b) = Fin (max a b)"

datatype error =
    TypeError    \<comment> \<open>a property read on \<^verbatim>\<open>undefined\<close>\<close>
  | NonFinite    \<comment> \<open>a coordinate of the computed position is infinite or NaN\<close>

section \<open>Geometry estimator\<close>

type_synonym box = "real \<times> real \<times> real \<times> real"

record Vector3 =
  vx :: real
  vy :: real
  vz :: real

definition toLowerChar :: "char \<Rightarrow> char" where
  "toLowerChar c =
     (let n = (of_char c :: nat) in if 65 \<le> n \<and> n \<le> 90 then char_of (n + 32) else c)"

definition toLowerCase :: "string \<Rightarrow> string" where
  "toLowerCase s = map toLowerChar s"

definition heightTable :: "(string \<times> real) list" where
  "heightTable =
     [(''person'', 1.70), (''cup'', 0.15), (''bottle'', 0.25), (''wine_glass'', 0.20),
      (''bowl'', 0.15), (''chair'', 1.0), (''couch'', 0.9), (''potted_plant'', 0.5),
      (''tv'', 0.7), (''laptop'', 0.3), (''mouse'', 0.05), (''remote'', 0.15),
      (''keyboard'', 0.05), (''cell_phone'', 0.15), (''book'', 0.25), (''vase'', 0.3),
      (''hand'', 0.20)]"

text \<open>
  \<^verbatim>\<open>map[cls.toLowerCase()] || 0.5\<close>: a missing key and a zero entry both give the
  default. The table is the object literal's own properties; class labels are those of
  the detector.
\<close>

definition getRealWorldHeight :: "string \<Rightarrow> real" where
  "getRealWorldHeight cls =
     (case map_of heightTable (toLowerCase cls) of
        None \<Rightarrow> 0.5
      | Some v \<Rightarrow> if v = 0 then 0.5 else v)"

definition degToRad :: "real \<Rightarrow> real" where
  "degToRad d = d * (pi / 180)"

text \<open>\<^verbatim>\<open>cameraRef.current?.fov || 75\<close>: no camera and a zero field of view give 75.\<close>

definition fovOrDefault :: "real option \<Rightarrow> real" where
  "fovOrDefault camFov = (case camFov of None \<Rightarrow> 75 | Some f \<Rightarrow> if f = 0 then 75 else f)"

text \<open>
  \<^verbatim>\<open>calculate3DPosition\<close>. The quotients by the video and the viewport dimensions
  are IEEE divisions: when one of the four dimensions (none of them is negative) is zero,
  a coordinate of the returned position is infinite or NaN, which is the value
  \<open>Inl NonFinite\<close> here. The depth is computed on \<open>jsnum\<close>; a NaN depth is
  \<open>Inl NonFinite\<close> as well.
\<close>

definition calculate3DPosition ::
  "box \<Rightarrow> string \<Rightarrow> real \<Rightarrow> real \<Rightarrow> real \<Rightarrow> real \<Rightarrow> real option \<Rightarrow> error + Vector3" where
  "calculate3DPosition bbox cls videoW videoH screenW screenH camFov =
     (case bbox of (x, y, w, h) \<Rightarrow>
      if videoW = 0 \<or> videoH = 0 \<or> screenW = 0 \<or> screenH = 0 then Inl NonFinite
      else
        let videoRatio = videoW / videoH;
            screenRatio = screenW / screenH;
            (renderW, renderH, offsetX, offsetY) =
              (if screenRatio > videoRatio
               then (screenW, screenW / videoRatio, 0, (screenH - screenW / videoRatio) / 2)
               else (screenH * videoRatio, screenH, (screenW - screenH * videoRatio) / 2, 0));
            scaleX = renderW / videoW;
            scaleY = renderH / videoH;
            screenBoxCenterX = (x * scaleX + offsetX) + (w * scaleX) / 2;
            screenBoxCenterY = (y * scaleY + offsetY) + (h * scaleY) / 2;
            ndcX = (screenBoxCenterX / screenW) * 2 - 1;
            ndcY = - (screenBoxCenterY / screenH) * 2 + 1;
            realHeight = getRealWorldHeight cls;
            projectedHeight = h * scaleY;
            screenHeightFraction = projectedHeight / screenH;
            fovRad = degToRad (fovOrDefault camFov);
            z0 = js_div (js_div (Fin realHeight) (Fin screenHeightFraction))
                        (Fin (2 * tan (fovRad / 2)));
            z1 = js_max (Fin 1.5) (js_min (Fin 50.0) z0)
        in (case z1 of
             Fin zc \<Rightarrow>
               let z = - zc;
                   visibleHeightAtZ = 2 * \<bar>z\<bar> * tan (fovRad / 2);
                   visibleWidthAtZ = visibleHeightAtZ * (screenW / screenH);
                   worldX = (ndcX * visibleWidthAtZ) / 2;
                   worldY = (ndcY * visibleHeightAtZ) / 2
               in Inr \<lparr>vx = worldX, vy = worldY, vz = z\<rparr>
           | _ \<Rightarrow> Inl NonFinite))"

section \<open>Tracker registry\<close>

text \<open>
  \<^verbatim>\<open>TrackerState\<close> without the fields that only the renderer reads and writes
  (\<^verbatim>\<open>rotationOffset\<close>, \<^verbatim>\<open>lastLabelUpdate\<close>, \<^verbatim>\<open>displayDist\<close>), and
  \<^verbatim>\<open>TrackedObject\<close> with the fields that a tick writes. Field names that clash with
  Isabelle keywords or constants carry a prefix.
\<close>

record PhysicsState =
  current :: Vector3
  target :: Vector3
  velocity :: Vector3
  p_scale :: real

record TrackerState =
  t_id :: nat
  t_class :: string
  isRemote :: bool
  color :: nat
  lastSeenTime :: int
  consecutiveMisses :: nat
  opacity :: real
  lockedBox :: box
  physics :: PhysicsState
  scanProgress :: real
  hasLidarScan :: bool
  gesture :: "string option"

datatype DepthSource = AI_ESTIMATE | LIDAR_FUSION

record TrackedObject =
  o_id :: nat
  o_class :: string
  confidence :: real
  bbox :: box
  position3D :: Vector3
  distance :: real
  lastSeen :: int
  isOccluded :: bool
  isSelected :: bool
  depthSource :: DepthSource
  o_gesture :: "string option"
  o_scanProgress :: real

record Prediction =
  p_class :: string
  score :: real
  p_bbox :: box
  p_gesture :: "string option"

datatype AnalysisMode = AUTO | DETAILED | SILENT

text \<open>
  The refs and props that the tracker reads and other code writes: the rapid-motion flag,
  the processing interval, the analysis mode, the video and window sizes, the camera's
  field of view and the object list of the parent component. \<open>analysisMode\<close> is the
  prop as \<^verbatim>\<open>checkSceneChange\<close> reads it: \<^verbatim>\<open>worker.onmessage\<close> is installed once, when
  the component is mounted, and keeps the functions of the first render, so the mode is
  the one the component was mounted with (\<^verbatim>\<open>App.tsx\<close> mounts it with \<^verbatim>\<open>'AUTO'\<close>), not
  the one selected later.
\<close>

record env =
  isMovingFast :: bool
  processingInterval :: real
  analysisMode :: AnalysisMode
  isLidarAvailable :: bool
  videoWidth :: real
  videoHeight :: real
  innerWidth :: real
  innerHeight :: real
  cameraFov :: "real option"
  localObjects :: "TrackedObject list"

text \<open>
  \<^verbatim>\<open>trackersRef\<close> is a JavaScript \<^verbatim>\<open>Map\<close>, which iterates in insertion order: an
  association list. \<^verbatim>\<open>labelsRef\<close> maps an id to its three.js group; only its key set
  is modelled, and disposing of a group is its removal from that set.
\<close>

record state =
  trackers :: "(nat \<times> TrackerState) list"
  labels :: "nat set"
  nextId :: nat
  lastObjectSet :: string
  lastAnalysisTime :: int

definition initialState :: state where
  "initialState =
     \<lparr>trackers = [], labels = {}, nextId = 1, lastObjectSet = [], lastAnalysisTime = 0\<rparr>"

fun map_set :: "nat \<Rightarrow> 'v \<Rightarrow> (nat \<times> 'v) list \<Rightarrow> (nat \<times> 'v) list" where
  "map_set k v [] = [(k, v)]"
| "map_set k v ((k', v') # kvs) =
     (if k' = k then (k, v) # kvs else (k', v') # map_set k v kvs)"

definition map_delete :: "nat \<Rightarrow> (nat \<times> 'v) list \<Rightarrow> (nat \<times> 'v) list" where
  "map_delete k kvs = filter (\<lambda>kv. fst kv \<noteq> k) kvs"

text \<open>
  A tracker object is mutated through a reference; \<open>store k t\<close> writes the mutated
  object back at the entry that holds it.
\<close>

definition store :: "nat \<Rightarrow> 'v \<Rightarrow> (nat \<times> 'v) list \<Rightarrow> (nat \<times> 'v) list" where
  "store k v kvs = map (\<lambda>kv. if fst kv = k then (k, v) else kv) kvs"

definition removeTracker :: "nat \<Rightarrow> state \<Rightarrow> state" where
  "removeTracker i s =
     s\<lparr>labels := labels s - {i}, trackers := map_delete i (trackers s)\<rparr>"

section \<open>Scene-change detector\<close>

datatype event = SceneChange "(string \<times> nat) list"

fun join :: "string \<Rightarrow> string list \<Rightarrow> string" where
  "join sep [] = []"
| "join sep [c] = c"
| "join sep (c # d # cs) = c @ sep @ join sep (d # cs)"

fun bump :: "string \<Rightarrow> (string \<times> nat) list \<Rightarrow> (string \<times> nat) list" where
  "bump c [] = [(c, 1)]"
| "bump c ((k, v) # kvs) = (if k = c then (k, v + 1) # kvs else (k, v) # bump c kvs)"

definition countClasses :: "string list \<Rightarrow> (string \<times> nat) list" where
  "countClasses classes = fold bump classes []"

text \<open>
  \<^verbatim>\<open>checkSceneChange\<close>; \<open>now\<close> is its own reading of the clock. The event carries the
  per-class counts from which the summary text is built; the text itself and the
  deferral of the callback by \<^verbatim>\<open>setTimeout(..., 0)\<close> are left out.
\<close>

definition checkSceneChange ::
  "env \<Rightarrow> int \<Rightarrow> nat list \<Rightarrow> string list \<Rightarrow> state \<Rightarrow> state \<times> event option" where
  "checkSceneChange e now currentIds classes s =
     (if now - lastAnalysisTime s < 2000 then (s, None)
      else
        let sorted = sort classes;
            currentSetSig = join '','' sorted
        in if currentSetSig \<noteq> lastObjectSet s
           then (s\<lparr>lastObjectSet := currentSetSig, lastAnalysisTime := now\<rparr>,
                 if analysisMode e = AUTO \<or> analysisMode e = DETAILED
                 then Some (SceneChange (countClasses sorted)) else None)
           else (s\<lparr>lastAnalysisTime := now\<rparr>, None))"

section \<open>Associator\<close>

text \<open>
  The inner \<^verbatim>\<open>availableTrackers.forEach\<close>: the search for the nearest available tracker
  of the detection's class, started at \<open>(None, 200)\<close>. \<open>sx\<close> and \<open>sy\<close> are the first two
  entries of the scaled box.
\<close>

fun findBest ::
  "(nat \<times> TrackerState) list \<Rightarrow> string \<Rightarrow> real \<Rightarrow> real \<Rightarrow> nat list \<Rightarrow> nat option \<times> real
     \<Rightarrow> error + (nat option \<times> real)" where
  "findBest reg cls sx sy [] best = Inr best"
| "findBest reg cls sx sy (tid # tids) (bestId, bestDist) =
     (case map_of reg tid of
        None \<Rightarrow> Inl TypeError
      | Some t \<Rightarrow>
          if t_class t \<noteq> cls then findBest reg cls sx sy tids (bestId, bestDist)
          else
            let dist = sqrt ((sx - fst (lockedBox t))\<^sup>2 + (sy - fst (snd (lockedBox t)))\<^sup>2)
            in if dist < bestDist then findBest reg cls sx sy tids (Some tid, dist)
               else findBest reg cls sx sy tids (bestId, bestDist))"

text \<open>\<^verbatim>\<open>if (bestId)\<close>: \<^verbatim>\<open>null\<close> and the number 0 are falsy and take the else branch.\<close>

definition truthy :: "nat option \<Rightarrow> bool" where
  "truthy b = (case b of None \<Rightarrow> False | Some k \<Rightarrow> k \<noteq> 0)"

definition set_add :: "nat \<Rightarrow> nat list \<Rightarrow> nat list" where
  "set_add k ks = (if k \<in> set ks then ks else ks @ [k])"

definition scaleBox :: "box \<Rightarrow> real \<Rightarrow> box" where
  "scaleBox b scaleFactor =
     (case b of (bx, by, bw, bh) \<Rightarrow>
        (bx * scaleFactor, by * scaleFactor, bw * scaleFactor, bh * scaleFactor))"

definition lerpBox :: "box \<Rightarrow> box \<Rightarrow> real \<Rightarrow> box" where
  "lerpBox l sb f =
     (case l of (l0, l1, l2, l3) \<Rightarrow> case sb of (s0, s1, s2, s3) \<Rightarrow>
        (l0 + (s0 - l0) * f, l1 + (s1 - l1) * f, l2 + (s2 - l2) * f, l3 + (s3 - l3) * f))"

definition placeholder :: Vector3 where
  "placeholder = \<lparr>vx = 0, vy = 0, vz = - 10\<rparr>"

definition newTracker :: "env \<Rightarrow> int \<Rightarrow> nat \<Rightarrow> Prediction \<Rightarrow> box \<Rightarrow> TrackerState" where
  "newTracker e now newId pred scaledBbox =
     \<lparr>t_id = newId, t_class = p_class pred, isRemote = False,
      color = (if p_class pred = ''hand'' then 16766720 else 65280),
      lastSeenTime = now, consecutiveMisses = 0, opacity = 1.0, lockedBox = scaledBbox,
      physics = \<lparr>current = placeholder, target = placeholder,
                 velocity = \<lparr>vx = 0, vy = 0, vz = 0\<rparr>, p_scale = 0.1\<rparr>,
      scanProgress = 0, hasLidarScan = isLidarAvailable e, gesture = p_gesture pred\<rparr>"

text \<open>
  The body of \<^verbatim>\<open>predictions.forEach\<close> on the loop's variables: the state, the set
  \<^verbatim>\<open>availableTrackers\<close> (a JavaScript \<^verbatim>\<open>Set\<close>, in insertion order), the array
  \<^verbatim>\<open>currentClasses\<close> and the set \<^verbatim>\<open>activeIds\<close>.
\<close>

type_synonym loopState = "state \<times> nat list \<times> string list \<times> nat list"

definition processPrediction ::
  "env \<Rightarrow> int \<Rightarrow> real \<Rightarrow> Prediction \<Rightarrow> loopState \<Rightarrow> error + loopState" where
  "processPrediction e now scaleFactor pred ls =
     (case ls of (s, availableTrackers, currentClasses, activeIds) \<Rightarrow>
      if score pred < 0.2 then Inr ls
      else
        let currentClasses' = currentClasses @ [p_class pred];
            scaledBbox = scaleBox (p_bbox pred) scaleFactor
        in (case findBest (trackers s) (p_class pred) (fst scaledBbox) (fst (snd scaledBbox))
                   availableTrackers (None, 200) of
              Inl err \<Rightarrow> Inl err
            | Inr (bestId, bestDist) \<Rightarrow>
                (case (if truthy bestId then bestId else None) of
                   Some b \<Rightarrow>
                     (case map_of (trackers s) b of
                        None \<Rightarrow> Inl TypeError
                      | Some t \<Rightarrow>
                          let lerpFactor = (if processingInterval e > 300 then 0.5 else 0.4);
                              t' = t\<lparr>lockedBox := lerpBox (lockedBox t) scaledBbox lerpFactor,
                                     lastSeenTime := now, consecutiveMisses := 0,
                                     gesture := p_gesture pred, opacity := 1.0\<rparr>
                          in Inr (s\<lparr>trackers := store b t' (trackers s)\<rparr>,
                                  removeAll b availableTrackers, currentClasses',
                                  set_add b activeIds))
                 | None \<Rightarrow>
                     let newId = nextId s
                     in Inr (s\<lparr>nextId := newId + 1, labels := insert newId (labels s),
                               trackers := map_set newId
                                 (newTracker e now newId pred scaledBbox) (trackers s)\<rparr>,
                             availableTrackers, currentClasses', set_add newId activeIds))))"

fun predictionsLoop ::
  "env \<Rightarrow> int \<Rightarrow> real \<Rightarrow> Prediction list \<Rightarrow> loopState \<Rightarrow> error + loopState" where
  "predictionsLoop e now scaleFactor [] ls = Inr ls"
| "predictionsLoop e now scaleFactor (pred # preds) ls =
     (case processPrediction e now scaleFactor pred ls of
        Inl err \<Rightarrow> Inl err
      | Inr ls' \<Rightarrow> predictionsLoop e now scaleFactor preds ls')"

text \<open>
  \<^verbatim>\<open>handleWorkerPredictions\<close>; \<open>now\<close> is its reading of the clock and \<open>now'\<close> the later
  one of \<^verbatim>\<open>checkSceneChange\<close>.
\<close>

definition handleWorkerPredictions ::
  "env \<Rightarrow> int \<Rightarrow> int \<Rightarrow> Prediction list \<Rightarrow> real \<Rightarrow> state \<Rightarrow> error + (state \<times> event option)" where
  "handleWorkerPredictions e now now' predictions scaleFactor s =
     (if isMovingFast e then Inr (s, None)
      else
        (case predictionsLoop e now scaleFactor predictions
                (s, map fst (trackers s), [], []) of
           Inl err \<Rightarrow> Inl err
         | Inr (s', availableTrackers, currentClasses, activeIds) \<Rightarrow>
             Inr (checkSceneChange e now' activeIds currentClasses s')))"

section \<open>Motion smoother and lifecycle manager\<close>

definition approach :: "Vector3 \<Rightarrow> Vector3 \<Rightarrow> real \<Rightarrow> Vector3" where
  "approach cur tgt speed =
     \<lparr>vx = vx cur + (vx tgt - vx cur) * speed,
      vy = vy cur + (vy tgt - vy cur) * speed,
      vz = vz cur + (vz tgt - vz cur) * speed\<rparr>"

definition findSelected :: "TrackedObject list \<Rightarrow> nat \<Rightarrow> bool" where
  "findSelected objs i =
     (case find (\<lambda>ob. o_id ob = i) objs of None \<Rightarrow> False | Some ob \<Rightarrow> isSelected ob)"

text \<open>
  The body of \<^verbatim>\<open>trackers.forEach\<close> in \<^verbatim>\<open>updateVisualsAndPhysics\<close>, for the entry
  \<open>(k, tracker)\<close> of the snapshot taken at the start of the tick. A zero video
  dimension is replaced by 1280 or 720. With a position that is not finite the JavaScript
  goes on and stores NaN coordinates; the model stops the tick there with
  \<open>Inl NonFinite\<close>, so what is proved about a tick is proved for a viewport that is not
  empty.
\<close>

definition updateTracker ::
  "env \<Rightarrow> int \<Rightarrow> nat \<times> TrackerState \<Rightarrow> state \<times> TrackedObject list
     \<Rightarrow> error + (state \<times> TrackedObject list)" where
  "updateTracker e now kt acc =
     (case kt of (k, tracker) \<Rightarrow> case acc of (s, nextLocalObjects) \<Rightarrow>
      let videoW = (if videoWidth e = 0 then 1280 else videoWidth e);
          videoH = (if videoHeight e = 0 then 720 else videoHeight e)
      in (case calculate3DPosition (lockedBox tracker) (t_class tracker) videoW videoH
                 (innerWidth e) (innerHeight e) (cameraFov e) of
            Inl err \<Rightarrow> Inl err
          | Inr calc \<Rightarrow>
              let speed = (if isMovingFast e then 0.9 else 0.2);
                  cur = approach (current (physics tracker)) calc speed;
                  isLost = (now - lastSeenTime tracker > 500);
                  opacity' = (if isLost then opacity tracker - 0.05 else opacity tracker);
                  tracker1 = tracker\<lparr>physics := (physics tracker)\<lparr>target := calc, current := cur\<rparr>,
                                     opacity := opacity'\<rparr>
              in if opacity' < 0.05 \<and> isLost
                 then Inr (removeTracker (t_id tracker1)
                             (s\<lparr>trackers := store k tracker1 (trackers s)\<rparr>),
                           nextLocalObjects)
                 else
                   let sp = scanProgress tracker1;
                       sp' = (if 0 < sp \<and> sp < 1
                              then (if sp + 0.01 > 1 then 1 else sp + 0.01) else sp);
                       tracker2 = tracker1\<lparr>scanProgress := sp'\<rparr>;
                       ob = \<lparr>o_id = t_id tracker2, o_class = t_class tracker2, confidence = 1,
                             bbox = lockedBox tracker2, position3D = current (physics tracker2),
                             distance = \<bar>vz (current (physics tracker2))\<bar>, lastSeen = now,
                             isOccluded = False,
                             isSelected = findSelected (localObjects e) (t_id tracker2),
                             depthSource = (if isLidarAvailable e then LIDAR_FUSION
                                            else AI_ESTIMATE),
                             o_gesture = gesture tracker2,
                             o_scanProgress = scanProgress tracker2\<rparr>
                   in Inr (s\<lparr>trackers := store k tracker2 (trackers s)\<rparr>,
                           nextLocalObjects @ [ob])))"

fun trackersLoop ::
  "env \<Rightarrow> int \<Rightarrow> (nat \<times> TrackerState) list \<Rightarrow> state \<times> TrackedObject list
     \<Rightarrow> error + (state \<times> TrackedObject list)" where
  "trackersLoop e now [] acc = Inr acc"
| "trackersLoop e now (kt # kts) acc =
     (case updateTracker e now kt acc of
        Inl err \<Rightarrow> Inl err
      | Inr acc' \<Rightarrow> trackersLoop e now kts acc')"

text \<open>
  \<^verbatim>\<open>updateVisualsAndPhysics\<close>: the result is the new state and the list handed to
  \<^verbatim>\<open>onUpdateLocalObjects\<close>, sorted by descending \<open>z\<close> (the sort is stable). The loop
  over the sorted list that follows writes three.js objects and the display-only fields
  only.
\<close>

definition updateVisualsAndPhysics ::
  "env \<Rightarrow> int \<Rightarrow> state \<Rightarrow> error + (state \<times> TrackedObject list)" where
  "updateVisualsAndPhysics e now s =
     (case trackersLoop e now (trackers s) (s, []) of
        Inl err \<Rightarrow> Inl err
      | Inr (s', nextLocalObjects) \<Rightarrow>
          Inr (s', sort_key (\<lambda>ob. - vz (position3D ob)) nextLocalObjects))"

section \<open>Derived quantities\<close>

subsection \<open>Geometry\<close>

text \<open>
  Closed forms of the local values of \<^verbatim>\<open>calculate3DPosition\<close>, used to state what it
  computes: the scale and the offsets of the mapping from video pixels to viewport pixels
  (the two branches give the same scale on both axes), the fraction of the viewport
  height that a box of height \<open>h\<close> covers, the normalised device coordinates of the box
  centre, the tangent of half the field of view and the clamp of the depth.
\<close>

definition coverScale :: "real \<Rightarrow> real \<Rightarrow> real \<Rightarrow> real \<Rightarrow> real" where
  "coverScale videoW videoH screenW screenH =
     (if screenW / screenH > videoW / videoH then screenW / videoW else screenH / videoH)"

definition coverOffsetX :: "real \<Rightarrow> real \<Rightarrow> real \<Rightarrow> real \<Rightarrow> real" where
  "coverOffsetX videoW videoH screenW screenH =
     (if screenW / screenH > videoW / videoH then 0
      else (screenW - screenH * (videoW / videoH)) / 2)"

definition coverOffsetY :: "real \<Rightarrow> real \<Rightarrow> real \<Rightarrow> real \<Rightarrow> real" where
  "coverOffsetY videoW videoH screenW screenH =
     (if screenW / screenH > videoW / videoH then (screenH - screenW / (videoW / videoH)) / 2
      else 0)"

definition boxHeightFraction :: "real \<Rightarrow> real \<Rightarrow> real \<Rightarrow> real \<Rightarrow> real \<Rightarrow> real" where
  "boxHeightFraction h videoW videoH screenW screenH =
     h * coverScale videoW videoH screenW screenH / screenH"

definition tanHalfFov :: "real option \<Rightarrow> real" where
  "tanHalfFov camFov = tan (degToRad (fovOrDefault camFov) / 2)"

definition clampDepth :: "real \<Rightarrow> real" where
  "clampDepth d = max 1.5 (min 50 d)"

definition ndcX :: "real \<Rightarrow> real \<Rightarrow> real \<Rightarrow> real \<Rightarrow> real \<Rightarrow> real \<Rightarrow> real" where
  "ndcX x w videoW videoH screenW screenH =
     (((x * coverScale videoW videoH screenW screenH
         + coverOffsetX videoW videoH screenW screenH)
        + (w * coverScale videoW videoH screenW screenH) / 2) / screenW) * 2 - 1"

definition ndcY :: "real \<Rightarrow> real \<Rightarrow> real \<Rightarrow> real \<Rightarrow> real \<Rightarrow> real \<Rightarrow> real" where
  "ndcY y h videoW videoH screenW screenH =
     - (((y * coverScale videoW videoH screenW screenH
         + coverOffsetY videoW videoH screenW screenH)
        + (h * coverScale videoW videoH screenW screenH) / 2) / screenH) * 2 + 1"

subsection \<open>Registry invariant\<close>

text \<open>
  The states that the two entry points reach from \<open>initialState\<close>: the keys of the
  registry are distinct (it is a \<^verbatim>\<open>Map\<close>), every tracker is stored under its own id, and
  ids and label keys are positive and below the counter \<open>nextId\<close>. \<open>grows\<close> is what a
  batch of detections may change; \<open>gone k\<close> says that the id \<open>k\<close> has been issued and is
  no longer in use.
\<close>

definition keys :: "state \<Rightarrow> nat set" where
  "keys s = fst ` set (trackers s)"

definition wellFormed :: "state \<Rightarrow> bool" where
  "wellFormed s \<longleftrightarrow> distinct (map fst (trackers s))
      \<and> (\<forall>kt \<in> set (trackers s). t_id (snd kt) = fst kt \<and> 0 < fst kt \<and> fst kt < nextId s)
      \<and> labels s \<subseteq> {k. 0 < k \<and> k < nextId s} \<and> 0 < nextId s"

definition grows :: "state \<Rightarrow> state \<Rightarrow> bool" where
  "grows s s' \<longleftrightarrow>
     keys s \<subseteq> keys s' \<and> keys s' \<subseteq> keys s \<union> {j. nextId s \<le> j}
     \<and> labels s \<subseteq> labels s' \<and> labels s' \<subseteq> labels s \<union> {j. nextId s \<le> j}
     \<and> nextId s \<le> nextId s' \<and> lastObjectSet s' = lastObjectSet s
     \<and> lastAnalysisTime s' = lastAnalysisTime s"

definition gone :: "nat \<Rightarrow> state \<Rightarrow> bool" where
  "gone k s \<longleftrightarrow> k < nextId s \<and> k \<notin> keys s \<and> k \<notin> labels s"

subsection \<open>Association\<close>

text \<open>
  The terms of the nearest-neighbour search: \<open>candidate\<close> is a tracker of the wanted
  class, \<open>cornerDist\<close> the Euclidean distance between a point and the top-left corner
  of a tracker's box, \<open>detDist\<close> that distance for the scaled box of a detection, and
  \<open>inGate\<close> a candidate strictly within the gate of 200. \<open>matchUpdate\<close> is the update of
  a matched tracker, \<open>signature\<close> the scene signature of a batch and \<open>trackClass\<close>
  the class of the track stored under an id.
\<close>

definition candidate :: "(nat \<times> TrackerState) list \<Rightarrow> string \<Rightarrow> nat \<Rightarrow> bool" where
  "candidate reg cls tid =
     (case map_of reg tid of None \<Rightarrow> False | Some t \<Rightarrow> t_class t = cls)"

definition cornerDist :: "(nat \<times> TrackerState) list \<Rightarrow> real \<Rightarrow> real \<Rightarrow> nat \<Rightarrow> real" where
  "cornerDist reg sx sy tid =
     (case map_of reg tid of
        None \<Rightarrow> 0
      | Some t \<Rightarrow> sqrt ((sx - fst (lockedBox t))\<^sup>2 + (sy - fst (snd (lockedBox t)))\<^sup>2))"

definition detDist :: "(nat \<times> TrackerState) list \<Rightarrow> Prediction \<Rightarrow> real \<Rightarrow> nat \<Rightarrow> real" where
  "detDist reg pred sf u =
     cornerDist reg (fst (scaleBox (p_bbox pred) sf)) (fst (snd (scaleBox (p_bbox pred) sf))) u"

definition inGate :: "(nat \<times> TrackerState) list \<Rightarrow> Prediction \<Rightarrow> real \<Rightarrow> nat \<Rightarrow> bool" where
  "inGate reg pred sf u \<longleftrightarrow> candidate reg (p_class pred) u \<and> detDist reg pred sf u < 200"

definition matchUpdate :: "env \<Rightarrow> int \<Rightarrow> real \<Rightarrow> Prediction \<Rightarrow> TrackerState \<Rightarrow> TrackerState" where
  "matchUpdate e now sf pred t =
     t\<lparr>lockedBox := lerpBox (lockedBox t) (scaleBox (p_bbox pred) sf)
                      (if processingInterval e > 300 then 0.5 else 0.4),
       lastSeenTime := now, consecutiveMisses := 0, gesture := p_gesture pred, opacity := 1.0\<rparr>"

definition signature :: "Prediction list \<Rightarrow> string" where
  "signature preds = join '','' (sort (map p_class (filter (\<lambda>p. \<not> score p < 0.2) preds)))"

definition trackClass :: "(nat \<times> TrackerState) list \<Rightarrow> nat \<Rightarrow> string" where
  "trackClass reg i = (case map_of reg i of None \<Rightarrow> [] | Some t \<Rightarrow> t_class t)"

subsection \<open>One tick, tracker by tracker\<close>

text \<open>
  What \<^verbatim>\<open>updateVisualsAndPhysics\<close> does to one tracker: \<open>calcFor\<close> is the call of the
  estimator, \<open>isLost\<close> and \<open>evicts\<close> are the two tests of the lifecycle, \<open>moved\<close> and
  \<open>scanned\<close> the two updates of a tracker, \<open>toObject\<close> the emitted object.
  \<open>tickTrackers\<close>, \<open>tickObjects\<close> and \<open>evictedIds\<close> put them together for a registry.
  \<open>towards a b c\<close> says that \<open>c\<close> is reached from \<open>a\<close> by a step in the direction of
  \<open>b\<close> that is no longer than the gap and does not pass \<open>b\<close>.
\<close>

definition calcFor :: "env \<Rightarrow> TrackerState \<Rightarrow> error + Vector3" where
  "calcFor e t =
     calculate3DPosition (lockedBox t) (t_class t)
       (if videoWidth e = 0 then 1280 else videoWidth e)
       (if videoHeight e = 0 then 720 else videoHeight e)
       (innerWidth e) (innerHeight e) (cameraFov e)"

definition isLost :: "int \<Rightarrow> TrackerState \<Rightarrow> bool" where
  "isLost now t \<longleftrightarrow> now - lastSeenTime t > 500"

definition evicts :: "int \<Rightarrow> TrackerState \<Rightarrow> bool" where
  "evicts now t \<longleftrightarrow> isLost now t \<and> opacity t - 0.05 < 0.05"

definition moved :: "env \<Rightarrow> int \<Rightarrow> Vector3 \<Rightarrow> TrackerState \<Rightarrow> TrackerState" where
  "moved e now calc t =
     t\<lparr>physics := (physics t)\<lparr>target := calc,
                     current := approach (current (physics t)) calc
                                  (if isMovingFast e then 0.9 else 0.2)\<rparr>,
       opacity := (if isLost now t then opacity t - 0.05 else opacity t)\<rparr>"

definition scanned :: "TrackerState \<Rightarrow> TrackerState" where
  "scanned t =
     t\<lparr>scanProgress :=
         (if 0 < scanProgress t \<and> scanProgress t < 1
          then (if scanProgress t + 0.01 > 1 then 1 else scanProgress t + 0.01)
          else scanProgress t)\<rparr>"

definition toObject :: "env \<Rightarrow> int \<Rightarrow> TrackerState \<Rightarrow> TrackedObject" where
  "toObject e now t =
     \<lparr>o_id = t_id t, o_class = t_class t, confidence = 1, bbox = lockedBox t,
      position3D = current (physics t), distance = \<bar>vz (current (physics t))\<bar>,
      lastSeen = now, isOccluded = False,
      isSelected = findSelected (localObjects e) (t_id t),
      depthSource = (if isLidarAvailable e then LIDAR_FUSION else AI_ESTIMATE),
      o_gesture = gesture t, o_scanProgress = scanProgress t\<rparr>"

fun tickTrackers :: "env \<Rightarrow> int \<Rightarrow> (nat \<times> TrackerState) list \<Rightarrow> (nat \<times> TrackerState) list" where
  "tickTrackers e now [] = []"
| "tickTrackers e now ((k, t) # kts) =
     (case calcFor e t of
        Inl err \<Rightarrow> tickTrackers e now kts
      | Inr calc \<Rightarrow>
          if evicts now t then tickTrackers e now kts
          else (k, scanned (moved e now calc t)) # tickTrackers e now kts)"

fun tickObjects :: "env \<Rightarrow> int \<Rightarrow> (nat \<times> TrackerState) list \<Rightarrow> TrackedObject list" where
  "tickObjects e now [] = []"
| "tickObjects e now ((k, t) # kts) =
     (case calcFor e t of
        Inl err \<Rightarrow> tickObjects e now kts
      | Inr calc \<Rightarrow>
          if evicts now t then tickObjects e now kts
          else toObject e now (scanned (moved e now calc t)) # tickObjects e now kts)"

definition evictedIds :: "int \<Rightarrow> (nat \<times> TrackerState) list \<Rightarrow> nat set" where
  "evictedIds now kts = fst ` set (filter (\<lambda>kt. evicts now (snd kt)) kts)"

definition towards :: "real \<Rightarrow> real \<Rightarrow> real \<Rightarrow> bool" where
  "towards a b c \<longleftrightarrow> \<bar>c - a\<bar> \<le> \<bar>b - a\<bar> \<and> \<bar>b - c\<bar> \<le> \<bar>b - a\<bar>"

definition vecTowards :: "Vector3 \<Rightarrow> Vector3 \<Rightarrow> Vector3 \<Rightarrow> bool" where
  "vecTowards a b c \<longleftrightarrow>
     towards (vx a) (vx b) (vx c) \<and> towards (vy a) (vy b) (vy c) \<and> towards (vz a) (vz b) (vz c)"

definition boxTowards :: "box \<Rightarrow> box \<Rightarrow> box \<Rightarrow> bool" where
  "boxTowards a b c \<longleftrightarrow>
     (case a of (a0, a1, a2, a3) \<Rightarrow> case b of (b0, b1, b2, b3) \<Rightarrow>
      case c of (c0, c1, c2, c3) \<Rightarrow>
        towards a0 b0 c0 \<and> towards a1 b1 c1 \<and> towards a2 b2 c2 \<and> towards a3 b3 c3)"

subsection \<open>Runs\<close>

text \<open>
  The tracker is driven by two kinds of input: a batch of detections from the worker and
  a frame of the render loop. \<open>run\<close> feeds a list of inputs to the two entry points and
  collects the object lists of the frames; \<open>trackAfter\<close> looks a tracker up after a run.
\<close>

datatype input = Detections env int int "Prediction list" real | Frame env int

fun viewportOk :: "input \<Rightarrow> bool" where
  "viewportOk (Detections e now now' preds sf) = True"
| "viewportOk (Frame e now) = (innerWidth e \<noteq> 0 \<and> innerHeight e \<noteq> 0)"

fun run :: "input list \<Rightarrow> state \<Rightarrow> error + (state \<times> TrackedObject list list)" where
  "run [] s = Inr (s, [])"
| "run (Detections e now now' preds sf # ins) s =
     (case handleWorkerPredictions e now now' preds sf s of
        Inl err \<Rightarrow> Inl err
      | Inr (s', ev) \<Rightarrow> run ins s')"
| "run (Frame e now # ins) s =
     (case updateVisualsAndPhysics e now s of
        Inl err \<Rightarrow> Inl err
      | Inr (s', out) \<Rightarrow>
          (case run ins s' of
             Inl err \<Rightarrow> Inl err
           | Inr (s'', outs) \<Rightarrow> Inr (s'', out # outs)))"

definition trackAfter :: "input list \<Rightarrow> state \<Rightarrow> nat \<Rightarrow> TrackerState option" where
  "trackAfter ins s k =
     (case run ins s of Inl err \<Rightarrow> None | Inr (s', outs) \<Rightarrow> map_of (trackers s') k)"

subsection \<open>Example inputs\<close>

text \<open>
  A desktop environment with a 1280 by 720 video shown in a window of the same size, one
  person tracked under the id 1 with the box \<open>(100, 100, 50, 50)\<close>, last seen at time 0,
  and detections of a person at the place of that track and far from it.
  \<open>exampleState 1\<close> is the state after a first batch with one such detection;
  \<open>exampleState op\<close> is that state with the opacity \<open>op\<close>.
\<close>

definition exampleEnv :: env where
  "exampleEnv =
     \<lparr>isMovingFast = False, processingInterval = 200, analysisMode = AUTO,
      isLidarAvailable = False, videoWidth = 1280, videoHeight = 720, innerWidth = 1280,
      innerHeight = 720, cameraFov = Some 75, localObjects = []\<rparr>"

definition rapidEnv :: env where
  "rapidEnv = exampleEnv\<lparr>isMovingFast := True\<rparr>"

definition examplePrediction :: "real \<Rightarrow> Prediction" where
  "examplePrediction bw =
     \<lparr>p_class = ''person'', score = 0.9, p_bbox = (100, 100, bw, 50), p_gesture = None\<rparr>"

definition farPrediction :: Prediction where
  "farPrediction =
     \<lparr>p_class = ''person'', score = 0.9, p_bbox = (500, 500, 50, 50), p_gesture = None\<rparr>"

definition exampleTracker :: "real \<Rightarrow> TrackerState" where
  "exampleTracker op = (newTracker exampleEnv 0 1 (examplePrediction 50) (100, 100, 50, 50))
     \<lparr>opacity := op\<rparr>"

definition exampleState :: "real \<Rightarrow> state" where
  "exampleState op =
     \<lparr>trackers = [(1, exampleTracker op)], labels = {1}, nextId = 2,
      lastObjectSet = [], lastAnalysisTime = 0\<rparr>"

definition exampleLater :: "input list" where
  "exampleLater =
     [Detections exampleEnv 1100 1100 [examplePrediction 50] 1, Frame exampleEnv 1200]"

definition matchedState :: "real \<Rightarrow> state" where
  "matchedState bw =
     (exampleState 1)\<lparr>trackers :=
        [(1, matchUpdate exampleEnv 100 1 (examplePrediction bw) (exampleTracker 1))]\<rparr>"

definition twiceState :: state where
  "twiceState =
     (matchedState 50)\<lparr>nextId := 3, labels := {1, 2},
        trackers := trackers (matchedState 50) @
          [(2, newTracker exampleEnv 100 2 (examplePrediction 50) (100, 100, 50, 50))]\<rparr>"

definition sceneState1 :: state where
  "sceneState1 = fst (checkSceneChange exampleEnv 10000 [] [''person''] initialState)"

definition sceneState2 :: state where
  "sceneState2 = fst (checkSceneChange exampleEnv 13000 [] [''person''] sceneState1)"

section \<open>Properties of the geometry estimator\<close>

lemma heightTable_pos: "map_of heightTable k = Some v \<Longrightarrow> 0 < v"
  by (auto simp: heightTable_def split: if_splits)

lemma getRealWorldHeight_pos: "0 < getRealWorldHeight cls"
  using heightTable_pos [of "toLowerCase cls"]
  by (auto simp: getRealWorldHeight_def split: option.splits)

lemma getRealWorldHeight_person: "getRealWorldHeight ''person'' = 1.7"
  by (simp add: getRealWorldHeight_def heightTable_def toLowerCase_def toLowerChar_def)

lemma depth_clamped:
  assumes "0 < rh"
  shows "case js_max (Fin 1.5) (js_min (Fin 50.0) (js_div (js_div (Fin rh) (Fin f)) (Fin t))) of
           Fin zc \<Rightarrow> 1.5 \<le> zc \<and> zc \<le> 50 | _ \<Rightarrow> False"
  using assms by (cases "f = 0"; cases "t = 0"; cases "0 < t"; cases "0 < rh / f")  (auto simp: max_def min_def)

lemma calc_unfold:
  assumes "videoW \<noteq> 0" "videoH \<noteq> 0" "screenW \<noteq> 0" "screenH \<noteq> 0"
  shows "calculate3DPosition (x, y, w, h) cls videoW videoH screenW screenH camFov =
     (case js_max (Fin 1.5) (js_min (Fin 50.0)
             (js_div (js_div (Fin (getRealWorldHeight cls))
                             (Fin (boxHeightFraction h videoW videoH screenW screenH)))
                     (Fin (2 * tanHalfFov camFov)))) of
        Fin zc \<Rightarrow>
          Inr \<lparr>vx = ((((x * coverScale videoW videoH screenW screenH
                          + coverOffsetX videoW videoH screenW screenH)
                        + (w * coverScale videoW videoH screenW screenH) / 2) / screenW) * 2 - 1)
                     * (2 * zc * tanHalfFov camFov * (screenW / screenH)) / 2,
               vy = (- (((y * coverScale videoW videoH screenW screenH
                          + coverOffsetY videoW videoH screenW screenH)
                        + (h * coverScale videoW videoH screenW screenH) / 2) / screenH) * 2 + 1)
                     * (2 * zc * tanHalfFov camFov) / 2,
               vz = - zc\<rparr>
      | _ \<Rightarrow> Inl NonFinite)"
proof -
  let ?z1 = "js_max (Fin 1.5) (js_min (Fin 50.0)
             (js_div (js_div (Fin (getRealWorldHeight cls))
                             (Fin (boxHeightFraction h videoW videoH screenW screenH)))
                     (Fin (2 * tanHalfFov camFov))))"
  have pos: "case ?z1 of Fin zc \<Rightarrow> 1.5 \<le> zc \<and> zc \<le> 50 | _ \<Rightarrow> False"
    by (rule depth_clamped [OF getRealWorldHeight_pos])
  then obtain zc where z1: "?z1 = Fin zc" and zc: "0 \<le> zc"
    by (cases ?z1) auto
  show ?thesis
  proof (cases "screenW / screenH > videoW / videoH")
    case True
    with assms z1 zc show ?thesis
      by (simp add: calculate3DPosition_def Let_def coverScale_def coverOffsetX_def
          coverOffsetY_def boxHeightFraction_def tanHalfFov_def
          del: js_div.simps js_min.simps js_max.simps)
  next
    case False
    with assms z1 zc show ?thesis
      by (simp add: calculate3DPosition_def Let_def coverScale_def coverOffsetX_def
          coverOffsetY_def boxHeightFraction_def tanHalfFov_def
          del: js_div.simps js_min.simps js_max.simps)
  qed
qed

lemma tanHalfFov_pos:
  assumes "0 < fovOrDefault camFov" "fovOrDefault camFov < 180"
  shows "0 < tanHalfFov camFov"
proof -
  have "0 < degToRad (fovOrDefault camFov) / 2" "degToRad (fovOrDefault camFov) / 2 < pi / 2"
    using assms by (simp_all add: degToRad_def)
  then show ?thesis unfolding tanHalfFov_def by (rule tan_gt_zero)
qed

lemma tanHalfFov_75: "1 / sqrt 3 < tanHalfFov (Some 75)" "tanHalfFov (Some 75) < 1"
proof -
  have a: "degToRad (fovOrDefault (Some 75)) / 2 = 5 * pi / 24"
    by (simp add: degToRad_def fovOrDefault_def)
  have "tan (pi / 6) < tan (5 * pi / 24)"
    by (intro tan_monotone; use pi_gt_zero in linarith)
  then show "1 / sqrt 3 < tanHalfFov (Some 75)"
    by (simp add: tanHalfFov_def a tan_30)
  have "tan (5 * pi / 24) < tan (pi / 4)"
    by (intro tan_monotone; use pi_gt_zero in linarith)
  then show "tanHalfFov (Some 75) < 1"
    by (simp add: tanHalfFov_def a tan_45)
qed

lemma tanHalfFov_150: "sqrt 3 < tanHalfFov (Some 150)"
proof -
  have a: "degToRad (fovOrDefault (Some 150)) / 2 = 5 * pi / 12"
    by (simp add: degToRad_def fovOrDefault_def)
  have "tan (pi / 3) < tan (5 * pi / 12)"
    by (intro tan_monotone; use pi_gt_zero in linarith)
  then show ?thesis
    by (simp add: tanHalfFov_def a tan_60)
qed

lemma sqrt3_bounds: "17 / 10 < sqrt 3" "sqrt 3 < 2"
proof -
  have "sqrt ((17 / 10)\<^sup>2) < sqrt 3"
    by (subst real_sqrt_less_iff) (simp add: power2_eq_square)
  then show "17 / 10 < sqrt 3" by simp
  have "sqrt 3 < sqrt (2\<^sup>2)"
    by (subst real_sqrt_less_iff) simp
  then show "sqrt 3 < 2" by simp
qed

lemma calc_depth:
  assumes "videoW \<noteq> 0" "videoH \<noteq> 0" "screenW \<noteq> 0" "screenH \<noteq> 0"
  shows "\<exists>p. calculate3DPosition (x, y, w, h) cls videoW videoH screenW screenH camFov = Inr p
           \<and> js_max (Fin 1.5) (js_min (Fin 50.0)
               (js_div (js_div (Fin (getRealWorldHeight cls))
                               (Fin (boxHeightFraction h videoW videoH screenW screenH)))
                       (Fin (2 * tanHalfFov camFov)))) = Fin (- vz p)
           \<and> 1.5 \<le> - vz p \<and> - vz p \<le> 50"
proof -
  let ?z1 = "js_max (Fin 1.5) (js_min (Fin 50.0)
             (js_div (js_div (Fin (getRealWorldHeight cls))
                             (Fin (boxHeightFraction h videoW videoH screenW screenH)))
                     (Fin (2 * tanHalfFov camFov))))"
  have "case ?z1 of Fin zc \<Rightarrow> 1.5 \<le> zc \<and> zc \<le> 50 | _ \<Rightarrow> False"
    by (rule depth_clamped [OF getRealWorldHeight_pos])
  then obtain zc where z1: "?z1 = Fin zc" and zc: "1.5 \<le> zc" "zc \<le> 50"
    by (cases ?z1) auto
  show ?thesis
    unfolding calc_unfold [OF assms] z1 using zc by simp
qed

lemma clampDepth_mono: "a \<le> b \<Longrightarrow> clampDepth a \<le> clampDepth b"
  by (simp add: clampDepth_def max_def min_def)

lemma coverScale_pos:
  assumes "0 < videoW" "0 < videoH" "0 < screenW" "0 < screenH"
  shows "0 < coverScale videoW videoH screenW screenH"
  using assms by (simp add: coverScale_def)

lemma calc_value:
  assumes "videoW \<noteq> 0" "videoH \<noteq> 0" "screenW \<noteq> 0" "screenH \<noteq> 0"
    and "boxHeightFraction h videoW videoH screenW screenH \<noteq> 0" "tanHalfFov camFov \<noteq> 0"
  shows "calculate3DPosition (x, y, w, h) cls videoW videoH screenW screenH camFov =
     (let d = clampDepth (getRealWorldHeight cls
                 / boxHeightFraction h videoW videoH screenW screenH
                 / (2 * tanHalfFov camFov))
      in Inr \<lparr>vx = ndcX x w videoW videoH screenW screenH
                     * (2 * d * tanHalfFov camFov * (screenW / screenH)) / 2,
               vy = ndcY y h videoW videoH screenW screenH * (2 * d * tanHalfFov camFov) / 2,
               vz = - d\<rparr>)"
  unfolding calc_unfold [OF assms(1-4)]
  using assms(5,6) by (simp add: clampDepth_def ndcX_def ndcY_def Let_def)

lemma clampDepth_bounds: "1.5 \<le> clampDepth d" "clampDepth d \<le> 50"
  by (simp_all add: clampDepth_def)

lemma clampDepth_low: "d \<le> 1.5 \<Longrightarrow> clampDepth d = 1.5"
  by (simp add: clampDepth_def)

lemma clampDepth_strict:
  assumes "a < b"
  shows "clampDepth a < clampDepth b \<longleftrightarrow> 1.5 < b \<and> a < 50"
  using assms by (auto simp: clampDepth_def max_def min_def)

text \<open>
  Claim C4. For a box of positive height (positive video and viewport dimensions, a field
  of view between 0 and 180 degrees) the estimator returns a position whose depth is
  \<open>realHeight / boxHeightFraction / (2 * tan (FOV / 2))\<close> clamped to \<open>[1.5, 50]\<close>, whose
  \<open>x\<close> and \<open>y\<close> are the box centre back-projected at that depth, and where the height
  is the table entry of the lower-cased class, 0.5 when there is none.
\<close>

theorem C4_depth_estimate:
  assumes "0 < videoW" "0 < videoH" "0 < screenW" "0 < screenH" "0 < h"
    and "0 < fovOrDefault camFov" "fovOrDefault camFov < 180"
  shows "\<exists>p. calculate3DPosition (x, y, w, h) cls videoW videoH screenW screenH camFov = Inr p
     \<and> - vz p = max 1.5 (min 50
           (getRealWorldHeight cls / boxHeightFraction h videoW videoH screenW screenH
              / (2 * tan (degToRad (fovOrDefault camFov) / 2))))
     \<and> vx p = ndcX x w videoW videoH screenW screenH
                * (2 * \<bar>vz p\<bar> * tan (degToRad (fovOrDefault camFov) / 2) * (screenW / screenH)) / 2
     \<and> vy p = ndcY y h videoW videoH screenW screenH
                * (2 * \<bar>vz p\<bar> * tan (degToRad (fovOrDefault camFov) / 2)) / 2
     \<and> getRealWorldHeight cls =
           (case map_of heightTable (toLowerCase cls) of None \<Rightarrow> 0.5 | Some v \<Rightarrow> v)"
proof -
  have t: "0 < tanHalfFov camFov"
    using assms(6,7) by (rule tanHalfFov_pos)
  have f: "0 < boxHeightFraction h videoW videoH screenW screenH"
    using assms(1-5) coverScale_pos [OF assms(1-4)] by (simp add: boxHeightFraction_def)
  have d: "0 \<le> clampDepth r" for r
    using clampDepth_bounds(1) [of r] by simp
  have rh: "getRealWorldHeight cls =
           (case map_of heightTable (toLowerCase cls) of None \<Rightarrow> 0.5 | Some v \<Rightarrow> v)"
    using heightTable_pos [of "toLowerCase cls"]
    by (auto simp: getRealWorldHeight_def split: option.splits)
  have "calculate3DPosition (x, y, w, h) cls videoW videoH screenW screenH camFov =
     (let d = clampDepth (getRealWorldHeight cls
                 / boxHeightFraction h videoW videoH screenW screenH
                 / (2 * tanHalfFov camFov))
      in Inr \<lparr>vx = ndcX x w videoW videoH screenW screenH
                     * (2 * d * tanHalfFov camFov * (screenW / screenH)) / 2,
               vy = ndcY y h videoW videoH screenW screenH * (2 * d * tanHalfFov camFov) / 2,
               vz = - d\<rparr>)"
    using assms(1-4) t f by (intro calc_value) simp_all
  then show ?thesis
    using d rh by (simp add: Let_def clampDepth_def tanHalfFov_def)
qed

theorem C4_depth_estimate_witness:
  "(0::real) < 1280 \<and> (0::real) < 720 \<and> (0::real) < 360
   \<and> 0 < fovOrDefault None \<and> fovOrDefault None < 180
   \<and> (\<exists>p. calculate3DPosition (0, 0, 100, 360) ''person'' 1280 720 1280 720 None = Inr p
        \<and> - vz p = max 1.5 (min 50 (1.7 / (1 / 2) / (2 * tan (degToRad 75 / 2)))))"
  using C4_depth_estimate [of 1280 720 1280 720 360 None 0 0 100 "''person''"]
  by (simp add: fovOrDefault_def getRealWorldHeight_person boxHeightFraction_def coverScale_def)
    blast

text \<open>
  Claim C9. For every box (a height of zero or below included), every class and every
  field of view, the estimator returns a position, and the magnitude of its depth lies in
  \<open>[1.5, 50]\<close>; the video and viewport dimensions are not zero.
\<close>

theorem C9_calculate3DPosition_total:
  assumes "videoW \<noteq> 0" "videoH \<noteq> 0" "screenW \<noteq> 0" "screenH \<noteq> 0"
  shows "\<exists>p. calculate3DPosition b cls videoW videoH screenW screenH camFov = Inr p
           \<and> 1.5 \<le> \<bar>vz p\<bar> \<and> \<bar>vz p\<bar> \<le> 50"
proof -
  obtain x y w h where b: "b = (x, y, w, h)"
    by (cases b) auto
  from calc_depth [OF assms, of x y w h cls camFov] show ?thesis
    unfolding b by auto
qed

theorem C9_calculate3DPosition_total_witness:
  "(1280::real) \<noteq> 0 \<and> (720::real) \<noteq> 0
   \<and> (\<exists>p. calculate3DPosition (10, 20, 30, 0) ''person'' 1280 720 1280 720 None = Inr p
          \<and> 1.5 \<le> \<bar>vz p\<bar> \<and> \<bar>vz p\<bar> \<le> 50)"
  using C9_calculate3DPosition_total [of 1280 720 1280 720 "(10, 20, 30, 0)" "''person''" None]
  by simp

text \<open>
  Claim C6, amended. For a class of reference height 1.70 and a box that covers the full
  viewport height, the estimated distance never exceeds the one of the same box at half
  that height, and it is strictly smaller exactly when the tangent of half the field of
  view lies strictly between 17/1000 and 17/15, as it does for the default field of view
  of 75 degrees.
\<close>

theorem C6_depth_monotone:
  assumes "0 < videoW" "0 < videoH" "0 < screenW" "0 < screenH"
    and "0 < fovOrDefault camFov" "fovOrDefault camFov < 180"
    and "getRealWorldHeight cls = 1.7"
    and "boxHeightFraction h videoW videoH screenW screenH = 1"
  shows "\<exists>pF pH.
           calculate3DPosition (x, y, w, h) cls videoW videoH screenW screenH camFov = Inr pF
         \<and> calculate3DPosition (x, y, w, h / 2) cls videoW videoH screenW screenH camFov = Inr pH
         \<and> \<bar>vz pF\<bar> \<le> \<bar>vz pH\<bar>
         \<and> (\<bar>vz pF\<bar> < \<bar>vz pH\<bar> \<longleftrightarrow>
              17 / 1000 < tan (degToRad (fovOrDefault camFov) / 2)
              \<and> tan (degToRad (fovOrDefault camFov) / 2) < 17 / 15)"
proof -
  let ?t = "tanHalfFov camFov"
  have t: "0 < ?t"
    using assms(5,6) by (rule tanHalfFov_pos)
  have half: "boxHeightFraction (h / 2) videoW videoH screenW screenH = 1 / 2"
    using assms(8) by (simp add: boxHeightFraction_def)
  have d: "0 \<le> clampDepth r" for r
    using clampDepth_bounds(1) [of r] by simp
  have F: "calculate3DPosition (x, y, w, h) cls videoW videoH screenW screenH camFov =
     (let d = clampDepth (1.7 / 1 / (2 * ?t))
      in Inr \<lparr>vx = ndcX x w videoW videoH screenW screenH
                     * (2 * d * ?t * (screenW / screenH)) / 2,
               vy = ndcY y h videoW videoH screenW screenH * (2 * d * ?t) / 2,
               vz = - d\<rparr>)"
    using calc_value [of videoW videoH screenW screenH h camFov x y w cls] assms t by simp
  have H: "calculate3DPosition (x, y, w, h / 2) cls videoW videoH screenW screenH camFov =
     (let d = clampDepth (1.7 / (1 / 2) / (2 * ?t))
      in Inr \<lparr>vx = ndcX x w videoW videoH screenW screenH
                     * (2 * d * ?t * (screenW / screenH)) / 2,
               vy = ndcY y (h / 2) videoW videoH screenW screenH * (2 * d * ?t) / 2,
               vz = - d\<rparr>)"
    using calc_value [of videoW videoH screenW screenH "h / 2" camFov x y w cls] assms t half
    by simp
  have lt: "1.7 / 1 / (2 * ?t) < 1.7 / (1 / 2) / (2 * ?t)"
    using t by (simp add: field_simps)
  have le: "clampDepth (1.7 / 1 / (2 * ?t)) \<le> clampDepth (1.7 / (1 / 2) / (2 * ?t))"
    using lt by (intro clampDepth_mono) simp
  have strict: "clampDepth (1.7 / 1 / (2 * ?t)) < clampDepth (1.7 / (1 / 2) / (2 * ?t))
       \<longleftrightarrow> 17 / 1000 < ?t \<and> ?t < 17 / 15"
    unfolding clampDepth_strict [OF lt] using t by (auto simp: field_simps)
  show ?thesis
    unfolding F H using d le strict by (simp add: Let_def tanHalfFov_def)
qed

theorem C6_depth_monotone_witness:
  "(0::real) < 1280 \<and> (0::real) < 720
   \<and> 0 < fovOrDefault None \<and> fovOrDefault None < 180
   \<and> getRealWorldHeight ''person'' = 1.7
   \<and> boxHeightFraction 720 1280 720 1280 720 = 1
   \<and> (\<exists>pF pH.
         calculate3DPosition (0, 0, 100, 720) ''person'' 1280 720 1280 720 None = Inr pF
       \<and> calculate3DPosition (0, 0, 100, 720 / 2) ''person'' 1280 720 1280 720 None = Inr pH
       \<and> \<bar>vz pF\<bar> < \<bar>vz pH\<bar>)"
proof -
  have f: "fovOrDefault None = 75"
    by (simp add: fovOrDefault_def)
  have b: "boxHeightFraction 720 1280 720 1280 720 = 1"
    by (simp add: boxHeightFraction_def coverScale_def)
  have "1 / 2 < 1 / sqrt 3"
    using sqrt3_bounds(2) by (simp add: field_simps)
  with tanHalfFov_75 have "1 / 2 < tanHalfFov (Some 75)" "tanHalfFov (Some 75) < 1"
    by linarith+
  then have t: "17 / 1000 < tan (degToRad (fovOrDefault None) / 2)"
      "tan (degToRad (fovOrDefault None) / 2) < 17 / 15"
    unfolding tanHalfFov_def fovOrDefault_def by simp_all
  from C6_depth_monotone [of 1280 720 1280 720 None "''person''" 720 0 0 100] t b
  show ?thesis
    by (simp add: f getRealWorldHeight_person) blast
qed

lemma calc_fov150:
  assumes "boxHeightFraction h 1280 720 1280 720 = f" "1 / 2 \<le> f"
  shows "map_sum id vz (calculate3DPosition (0, 0, 100, h) ''person'' 1280 720 1280 720 (Some 150))
         = Inr (- 1.5)"
proof -
  have t: "17 / 10 < tanHalfFov (Some 150)"
    using tanHalfFov_150 sqrt3_bounds(1) by simp
  have "1.7 / f / (2 * tanHalfFov (Some 150)) \<le> 1.7 / (1 / 2) / (2 * tanHalfFov (Some 150))"
    using assms(2) t by (simp add: field_simps)
  also have "\<dots> \<le> 1.5"
    using t by (simp add: field_simps)
  finally have "clampDepth (1.7 / f / (2 * tanHalfFov (Some 150))) = 1.5"
    by (rule clampDepth_low)
  moreover have "calculate3DPosition (0, 0, 100, h) ''person'' 1280 720 1280 720 (Some 150) =
     (let d = clampDepth (1.7 / f / (2 * tanHalfFov (Some 150)))
      in Inr \<lparr>vx = ndcX 0 100 1280 720 1280 720
                     * (2 * d * tanHalfFov (Some 150) * (1280 / 720)) / 2,
               vy = ndcY 0 h 1280 720 1280 720 * (2 * d * tanHalfFov (Some 150)) / 2,
               vz = - d\<rparr>)"
    using calc_value [of 1280 720 1280 720 h "Some 150" 0 0 100 "''person''"] assms t
    by (simp add: getRealWorldHeight_person)
  ultimately show ?thesis
    by (simp add: Let_def)
qed

text \<open>
  Claim C6 as stated fails at a field of view of 150 degrees (zoom level 0.5): the
  full-height and the half-height box of a person both get the clamped distance 1.5.
\<close>

theorem C6_counterexample:
  "boxHeightFraction 720 1280 720 1280 720 = 1
   \<and> boxHeightFraction 360 1280 720 1280 720 = 1 / 2
   \<and> map_sum id vz (calculate3DPosition (0, 0, 100, 720) ''person'' 1280 720 1280 720 (Some 150))
       = Inr (- 1.5)
   \<and> map_sum id vz (calculate3DPosition (0, 0, 100, 360) ''person'' 1280 720 1280 720 (Some 150))
       = Inr (- 1.5)"
proof -
  have a: "boxHeightFraction 720 1280 720 1280 720 = 1"
    and b: "boxHeightFraction 360 1280 720 1280 720 = 1 / 2"
    by (simp_all add: boxHeightFraction_def coverScale_def)
  show ?thesis
    using a b calc_fov150 [OF a] calc_fov150 [OF b] by simp
qed

section \<open>Properties of the associator\<close>

lemma map_of_key: "k \<in> fst ` set reg \<Longrightarrow> \<exists>t. map_of reg k = Some t"
  using map_of_eq_None_iff [of reg k] by (cases "map_of reg k") auto

lemma findBest_unchanged:
  assumes "set tids \<subseteq> fst ` set reg"
    and "\<forall>u \<in> set tids. candidate reg cls u \<longrightarrow> d0 \<le> cornerDist reg sx sy u"
  shows "findBest reg cls sx sy tids (b0, d0) = Inr (b0, d0)"
  using assms
proof (induction tids)
  case Nil
  then show ?case by simp
next
  case (Cons tid tids)
  from Cons.prems(1) obtain t where t: "map_of reg tid = Some t"
    using map_of_key [of tid reg] by auto
  from Cons show ?case
    using t by (auto simp: candidate_def cornerDist_def Let_def)
qed

lemma findBest_spec:
  assumes "set tids \<subseteq> fst ` set reg"
    and "\<exists>u \<in> set tids. candidate reg cls u \<and> cornerDist reg sx sy u < d0"
  shows "\<exists>pre tid post. tids = pre @ tid # post
           \<and> candidate reg cls tid \<and> cornerDist reg sx sy tid < d0
           \<and> (\<forall>u \<in> set pre. candidate reg cls u \<longrightarrow> cornerDist reg sx sy tid < cornerDist reg sx sy u)
           \<and> (\<forall>u \<in> set post. candidate reg cls u \<longrightarrow> cornerDist reg sx sy tid \<le> cornerDist reg sx sy u)
           \<and> findBest reg cls sx sy tids (b0, d0) = Inr (Some tid, cornerDist reg sx sy tid)"
  using assms
proof (induction tids arbitrary: b0 d0)
  case Nil
  then show ?case by simp
next
  case (Cons a tids)
  let ?D = "cornerDist reg sx sy"
  let ?C = "candidate reg cls"
  from Cons.prems(1) obtain t where t: "map_of reg a = Some t"
    using map_of_key [of a reg] by auto
  have sub: "set tids \<subseteq> fst ` set reg"
    using Cons.prems(1) by simp
  show ?case
  proof (cases "?C a \<and> ?D a < d0")
    case True
    then have step: "findBest reg cls sx sy (a # tids) (b0, d0)
        = findBest reg cls sx sy tids (Some a, ?D a)"
      using t by (simp add: candidate_def cornerDist_def Let_def)
    show ?thesis
    proof (cases "\<exists>u \<in> set tids. ?C u \<and> ?D u < ?D a")
      case later: True
      from Cons.IH [OF sub later, of "Some a"] obtain pre tid post where
        p: "tids = pre @ tid # post" "?C tid" "?D tid < ?D a"
          "\<forall>u \<in> set pre. ?C u \<longrightarrow> ?D tid < ?D u"
          "\<forall>u \<in> set post. ?C u \<longrightarrow> ?D tid \<le> ?D u"
          "findBest reg cls sx sy tids (Some a, ?D a) = Inr (Some tid, ?D tid)"
        by blast
      have "a # tids = (a # pre) @ tid # post"
        using p(1) by simp
      moreover have "\<forall>u \<in> set (a # pre). ?C u \<longrightarrow> ?D tid < ?D u"
        using p(3,4) by simp
      moreover have "?D tid < d0"
        using p(3) True by simp
      ultimately show ?thesis
        using p(2,5,6) step by metis
    next
      case False
      then have all: "\<forall>u \<in> set tids. ?C u \<longrightarrow> ?D a \<le> ?D u"
        by auto
      have "findBest reg cls sx sy tids (Some a, ?D a) = Inr (Some a, ?D a)"
        using sub all by (rule findBest_unchanged)
      moreover have "a # tids = [] @ a # tids"
        by simp
      moreover have "\<forall>u \<in> set []. ?C u \<longrightarrow> ?D a < ?D u"
        by simp
      ultimately show ?thesis
        using True all step by metis
    qed
  next
    case False
    then have step: "findBest reg cls sx sy (a # tids) (b0, d0)
        = findBest reg cls sx sy tids (b0, d0)"
      using t by (auto simp: candidate_def cornerDist_def Let_def)
    from False Cons.prems(2) have later: "\<exists>u \<in> set tids. ?C u \<and> ?D u < d0"
      by auto
    from Cons.IH [OF sub later, of b0] obtain pre tid post where
      p: "tids = pre @ tid # post" "?C tid" "?D tid < d0"
        "\<forall>u \<in> set pre. ?C u \<longrightarrow> ?D tid < ?D u"
        "\<forall>u \<in> set post. ?C u \<longrightarrow> ?D tid \<le> ?D u"
        "findBest reg cls sx sy tids (b0, d0) = Inr (Some tid, ?D tid)"
      by blast
    have "a # tids = (a # pre) @ tid # post"
      using p(1) by simp
    moreover have "\<forall>u \<in> set (a # pre). ?C u \<longrightarrow> ?D tid < ?D u"
      using p(3,4) False by auto
    ultimately show ?thesis
      using p(2,3,5,6) step by metis
  qed
qed

lemma map_fst_store [simp]: "map fst (store k v reg) = map fst reg"
  by (induction reg) (auto simp: store_def)

lemma set_store_fst [simp]: "fst ` set (store k v reg) = fst ` set reg"
  using map_fst_store [of k v reg] by (metis list.set_map)

lemma map_of_store:
  "map_of (store k v reg) k' = (if k' = k \<and> k \<in> fst ` set reg then Some v else map_of reg k')"
  by (induction reg) (force simp: store_def)+

lemma store_absent: "k \<notin> fst ` set reg \<Longrightarrow> store k v reg = reg"
  by (induction reg) (auto simp: store_def)

lemma map_set_fresh: "k \<notin> fst ` set reg \<Longrightarrow> map_set k v reg = reg @ [(k, v)]"
  by (induction reg) auto

lemma set_map_delete [simp]: "fst ` set (map_delete k reg) = fst ` set reg - {k}"
  by (auto simp: map_delete_def)

lemma processPrediction_low:
  "score pred < 0.2 \<Longrightarrow> processPrediction e now sf pred ls = Inr ls"
  by (simp add: processPrediction_def split: prod.splits)

lemma processPrediction_create:
  assumes "\<not> score pred < 0.2" and "set av \<subseteq> keys s"
    and "\<forall>u \<in> set av. candidate (trackers s) (p_class pred) u \<longrightarrow>
           200 \<le> cornerDist (trackers s) (fst (scaleBox (p_bbox pred) sf))
                    (fst (snd (scaleBox (p_bbox pred) sf))) u"
  shows "processPrediction e now sf pred (s, av, cl, ac) =
     Inr (s\<lparr>nextId := nextId s + 1, labels := insert (nextId s) (labels s),
            trackers := map_set (nextId s)
              (newTracker e now (nextId s) pred (scaleBox (p_bbox pred) sf)) (trackers s)\<rparr>,
          av, cl @ [p_class pred], set_add (nextId s) ac)"
proof -
  have "findBest (trackers s) (p_class pred) (fst (scaleBox (p_bbox pred) sf))
          (fst (snd (scaleBox (p_bbox pred) sf))) av (None, 200) = Inr (None, 200)"
    using assms(2,3) unfolding keys_def by (intro findBest_unchanged) auto
  then show ?thesis
    using assms(1) by (simp add: processPrediction_def Let_def truthy_def)
qed

lemma processPrediction_match:
  assumes "\<not> score pred < 0.2" and "set av \<subseteq> keys s" and "0 \<notin> set av"
    and "\<exists>u \<in> set av. candidate (trackers s) (p_class pred) u \<and>
           cornerDist (trackers s) (fst (scaleBox (p_bbox pred) sf))
                    (fst (snd (scaleBox (p_bbox pred) sf))) u < 200"
  shows "\<exists>pre tid post t. av = pre @ tid # post
     \<and> map_of (trackers s) tid = Some t \<and> t_class t = p_class pred
     \<and> cornerDist (trackers s) (fst (scaleBox (p_bbox pred) sf))
                    (fst (snd (scaleBox (p_bbox pred) sf))) tid < 200
     \<and> (\<forall>u \<in> set pre. candidate (trackers s) (p_class pred) u \<longrightarrow>
           cornerDist (trackers s) (fst (scaleBox (p_bbox pred) sf))
                    (fst (snd (scaleBox (p_bbox pred) sf))) tid
           < cornerDist (trackers s) (fst (scaleBox (p_bbox pred) sf))
                    (fst (snd (scaleBox (p_bbox pred) sf))) u)
     \<and> (\<forall>u \<in> set post. candidate (trackers s) (p_class pred) u \<longrightarrow>
           cornerDist (trackers s) (fst (scaleBox (p_bbox pred) sf))
                    (fst (snd (scaleBox (p_bbox pred) sf))) tid
           \<le> cornerDist (trackers s) (fst (scaleBox (p_bbox pred) sf))
                    (fst (snd (scaleBox (p_bbox pred) sf))) u)
     \<and> processPrediction e now sf pred (s, av, cl, ac) =
         Inr (s\<lparr>trackers := store tid
                  (t\<lparr>lockedBox := lerpBox (lockedBox t) (scaleBox (p_bbox pred) sf)
                                   (if processingInterval e > 300 then 0.5 else 0.4),
                     lastSeenTime := now, consecutiveMisses := 0,
                     gesture := p_gesture pred, opacity := 1.0\<rparr>) (trackers s)\<rparr>,
              removeAll tid av, cl @ [p_class pred], set_add tid ac)"
proof -
  let ?D = "cornerDist (trackers s) (fst (scaleBox (p_bbox pred) sf))
                    (fst (snd (scaleBox (p_bbox pred) sf)))"
  let ?C = "candidate (trackers s) (p_class pred)"
  have sub: "set av \<subseteq> fst ` set (trackers s)"
    using assms(2) by (simp add: keys_def)
  from findBest_spec [OF sub assms(4), of None] obtain pre tid post where
    p: "av = pre @ tid # post" "?C tid" "?D tid < 200"
      "\<forall>u \<in> set pre. ?C u \<longrightarrow> ?D tid < ?D u"
      "\<forall>u \<in> set post. ?C u \<longrightarrow> ?D tid \<le> ?D u"
      "findBest (trackers s) (p_class pred) (fst (scaleBox (p_bbox pred) sf))
          (fst (snd (scaleBox (p_bbox pred) sf))) av (None, 200) = Inr (Some tid, ?D tid)"
    by blast
  from p(2) obtain t where t: "map_of (trackers s) tid = Some t" "t_class t = p_class pred"
    by (auto simp: candidate_def split: option.splits)
  have nz: "tid \<noteq> 0"
    using p(1) assms(3) by auto
  have "processPrediction e now sf pred (s, av, cl, ac) =
         Inr (s\<lparr>trackers := store tid
                  (t\<lparr>lockedBox := lerpBox (lockedBox t) (scaleBox (p_bbox pred) sf)
                                   (if processingInterval e > 300 then 0.5 else 0.4),
                     lastSeenTime := now, consecutiveMisses := 0,
                     gesture := p_gesture pred, opacity := 1.0\<rparr>) (trackers s)\<rparr>,
              removeAll tid av, cl @ [p_class pred], set_add tid ac)"
    using assms(1) p(6) t(1) nz by (simp add: processPrediction_def Let_def truthy_def)
  with p t show ?thesis
    by blast
qed

lemma set_store: "set (store k v reg) \<subseteq> insert (k, v) (set reg)"
  by (auto simp: store_def)

lemma wf_create:
  assumes "wellFormed s"
  shows "wellFormed (s\<lparr>nextId := nextId s + 1, labels := insert (nextId s) (labels s),
              trackers := map_set (nextId s) (newTracker e now (nextId s) pred sb) (trackers s)\<rparr>)"
    and "map_set (nextId s) (newTracker e now (nextId s) pred sb) (trackers s)
         = trackers s @ [(nextId s, newTracker e now (nextId s) pred sb)]"
proof -
  have fresh: "nextId s \<notin> fst ` set (trackers s)"
    using assms by (auto simp: wellFormed_def)
  show eq: "map_set (nextId s) (newTracker e now (nextId s) pred sb) (trackers s)
         = trackers s @ [(nextId s, newTracker e now (nextId s) pred sb)]"
    using fresh by (rule map_set_fresh)
  show "wellFormed (s\<lparr>nextId := nextId s + 1, labels := insert (nextId s) (labels s),
              trackers := map_set (nextId s) (newTracker e now (nextId s) pred sb) (trackers s)\<rparr>)"
    unfolding eq using assms fresh by (auto simp: wellFormed_def newTracker_def less_Suc_eq)
qed

lemma wf_store:
  assumes "wellFormed s" "t_id t' = k"
  shows "wellFormed (s\<lparr>trackers := store k t' (trackers s)\<rparr>)"
proof -
  have "\<forall>kt \<in> set (store k t' (trackers s)).
          t_id (snd kt) = fst kt \<and> 0 < fst kt \<and> fst kt < nextId s"
  proof
    fix kt assume kt: "kt \<in> set (store k t' (trackers s))"
    then have "(kt = (k, t') \<and> k \<in> fst ` set (trackers s)) \<or> kt \<in> set (trackers s)"
      by (auto simp: store_def split: if_splits)
    with assms show "t_id (snd kt) = fst kt \<and> 0 < fst kt \<and> fst kt < nextId s"
      by (fastforce simp: wellFormed_def)
  qed
  with assms(1) show ?thesis
    by (simp add: wellFormed_def)
qed

lemma wf_lookup:
  assumes "wellFormed s" "map_of (trackers s) k = Some t"
  shows "t_id t = k" "0 < k" "k < nextId s" "k \<in> keys s"
  using assms map_of_SomeD [OF assms(2)] by (auto simp: wellFormed_def keys_def rev_image_eqI)

lemma grows_trans: "grows s s1 \<Longrightarrow> grows s1 s2 \<Longrightarrow> grows s s2"
  unfolding grows_def by (intro conjI; (force | simp))

lemma processPrediction_step:
  assumes "wellFormed s" "set av \<subseteq> keys s"
  shows "\<exists>s' av' ac'. processPrediction e now sf pred (s, av, cl, ac)
            = Inr (s', av', cl @ (if score pred < 0.2 then [] else [p_class pred]), ac')
         \<and> wellFormed s' \<and> set av' \<subseteq> keys s' \<and> set av' \<subseteq> set av \<and> grows s s'"
proof (cases "score pred < 0.2")
  case True
  with assms show ?thesis
    by (simp add: processPrediction_low grows_def)
next
  case False
  let ?sb = "scaleBox (p_bbox pred) sf"
  let ?D = "cornerDist (trackers s) (fst ?sb) (fst (snd ?sb))"
  let ?C = "candidate (trackers s) (p_class pred)"
  show ?thesis
  proof (cases "\<exists>u \<in> set av. ?C u \<and> ?D u < 200")
    case True
    have z: "0 \<notin> set av"
      using assms by (fastforce simp: wellFormed_def keys_def)
    from processPrediction_match [OF False assms(2) z True, of e now cl ac]
    obtain pre tid post t where
      p: "av = pre @ tid # post" "map_of (trackers s) tid = Some t"
        "processPrediction e now sf pred (s, av, cl, ac) =
         Inr (s\<lparr>trackers := store tid
                  (t\<lparr>lockedBox := lerpBox (lockedBox t) ?sb
                                   (if processingInterval e > 300 then 0.5 else 0.4),
                     lastSeenTime := now, consecutiveMisses := 0,
                     gesture := p_gesture pred, opacity := 1.0\<rparr>) (trackers s)\<rparr>,
              removeAll tid av, cl @ [p_class pred], set_add tid ac)"
      by blast
    have "wellFormed (s\<lparr>trackers := store tid
                  (t\<lparr>lockedBox := lerpBox (lockedBox t) ?sb
                                   (if processingInterval e > 300 then 0.5 else 0.4),
                     lastSeenTime := now, consecutiveMisses := 0,
                     gesture := p_gesture pred, opacity := 1.0\<rparr>) (trackers s)\<rparr>)"
      using assms(1) wf_lookup(1) [OF assms(1) p(2)] by (intro wf_store) simp_all
    with p(3) False assms(2) show ?thesis
      by (auto simp: keys_def grows_def)
  next
    case none: False
    then have all: "\<forall>u \<in> set av. ?C u \<longrightarrow> 200 \<le> ?D u"
      by auto
    note c = processPrediction_create [OF False assms(2) all, of e now cl ac]
    note w = wf_create [OF assms(1), of e now pred ?sb]
    show ?thesis
      unfolding c using w(1) False assms(2) unfolding w(2) by (auto simp: keys_def grows_def)
  qed
qed

lemma predictionsLoop_run:
  assumes "wellFormed s" "set av \<subseteq> keys s"
  shows "\<exists>s' av' ac'. predictionsLoop e now sf preds (s, av, cl, ac)
            = Inr (s', av', cl @ map p_class (filter (\<lambda>p. \<not> score p < 0.2) preds), ac')
         \<and> wellFormed s' \<and> set av' \<subseteq> keys s' \<and> set av' \<subseteq> set av \<and> grows s s'"
  using assms
proof (induction preds arbitrary: s av cl ac)
  case Nil
  then show ?case by (simp add: grows_def)
next
  case (Cons pred preds)
  from processPrediction_step [OF Cons.prems, of e now sf pred cl ac]
  obtain s1 av1 ac1 where
    a: "processPrediction e now sf pred (s, av, cl, ac)
            = Inr (s1, av1, cl @ (if score pred < 0.2 then [] else [p_class pred]), ac1)"
      "wellFormed s1" "set av1 \<subseteq> keys s1" "set av1 \<subseteq> set av" "grows s s1"
    by blast
  from Cons.IH [OF a(2,3), of "cl @ (if score pred < 0.2 then [] else [p_class pred])" ac1]
  obtain s' av' ac' where
    b: "predictionsLoop e now sf preds
          (s1, av1, cl @ (if score pred < 0.2 then [] else [p_class pred]), ac1)
        = Inr (s', av', (cl @ (if score pred < 0.2 then [] else [p_class pred]))
                 @ map p_class (filter (\<lambda>p. \<not> score p < 0.2) preds), ac')"
      "wellFormed s'" "set av' \<subseteq> keys s'" "set av' \<subseteq> set av1" "grows s1 s'"
    by blast
  show ?case
    using a(1,4) b(1,2,3,4) grows_trans [OF a(5) b(5)] by (cases "score pred < 0.2") auto
qed

lemma predictionsLoop_filter:
  "predictionsLoop e now sf (filter (\<lambda>p. \<not> score p < 0.2) preds) ls
   = predictionsLoop e now sf preds ls"
  by (induction preds arbitrary: ls) (auto simp: processPrediction_low split: sum.splits)

text \<open>
  Claim C8. A detection whose score is below 0.2 is skipped before anything else is done
  with it, whatever its class: a batch has the same result (the registry, the labels, the
  next id, the scene signature and the event) as the batch without its detections below
  the floor.
\<close>

theorem C8_low_confidence_discarded:
  "handleWorkerPredictions e now now' predictions sf s
   = handleWorkerPredictions e now now' (filter (\<lambda>p. \<not> score p < 0.2) predictions) sf s"
  unfolding handleWorkerPredictions_def predictionsLoop_filter by (rule refl)

lemma handleWorkerPredictions_result:
  assumes "wellFormed s" "\<not> isMovingFast e"
  shows "\<exists>s1 av ac. predictionsLoop e now sf preds (s, map fst (trackers s), [], [])
            = Inr (s1, av, map p_class (filter (\<lambda>p. \<not> score p < 0.2) preds), ac)
         \<and> wellFormed s1 \<and> grows s s1
         \<and> handleWorkerPredictions e now now' preds sf s
            = Inr (checkSceneChange e now' ac
                     (map p_class (filter (\<lambda>p. \<not> score p < 0.2) preds)) s1)"
proof -
  have "set (map fst (trackers s)) \<subseteq> keys s"
    by (simp add: keys_def)
  from predictionsLoop_run [OF assms(1) this, of e now sf preds "[]" "[]"]
  show ?thesis
    using assms(2) by (fastforce simp: handleWorkerPredictions_def)
qed

lemma checkSceneChange_event:
  "snd (checkSceneChange e now ids classes s) \<noteq> None \<longleftrightarrow>
     2000 \<le> now - lastAnalysisTime s \<and> join '','' (sort classes) \<noteq> lastObjectSet s
     \<and> analysisMode e \<noteq> SILENT"
  by (cases "analysisMode e") (auto simp: checkSceneChange_def Let_def)

lemma checkSceneChange_state:
  "fst (checkSceneChange e now ids classes s) =
     (if now - lastAnalysisTime s < 2000 then s
      else s\<lparr>lastObjectSet := join '','' (sort classes), lastAnalysisTime := now\<rparr>)"
  by (auto simp: checkSceneChange_def Let_def)

section \<open>Properties of a tick\<close>

lemma calcFor_ok:
  assumes "innerWidth e \<noteq> 0" "innerHeight e \<noteq> 0"
  shows "\<exists>p. calcFor e t = Inr p \<and> 1.5 \<le> - vz p \<and> - vz p \<le> 50"
proof -
  obtain x y w h where b: "lockedBox t = (x, y, w, h)"
    by (cases "lockedBox t") auto
  have "(if videoWidth e = 0 then 1280 else videoWidth e) \<noteq> 0"
       "(if videoHeight e = 0 then 720 else videoHeight e) \<noteq> 0"
    by auto
  from calc_depth [OF this assms, of x y w h "t_class t" "cameraFov e"] show ?thesis
    unfolding calcFor_def b by blast
qed

lemma updateTracker_unfold:
  "updateTracker e now (k, t) (s, out) =
     (case calcFor e t of
        Inl err \<Rightarrow> Inl err
      | Inr calc \<Rightarrow>
          if evicts now t
          then Inr (removeTracker (t_id t)
                      (s\<lparr>trackers := store k (moved e now calc t) (trackers s)\<rparr>), out)
          else Inr (s\<lparr>trackers := store k (scanned (moved e now calc t)) (trackers s)\<rparr>,
                    out @ [toObject e now (scanned (moved e now calc t))]))"
  by (auto simp: updateTracker_def calcFor_def Let_def evicts_def isLost_def moved_def
      scanned_def toObject_def split: sum.splits)

lemma store_middle:
  assumes "k \<notin> fst ` set pre"
  shows "store k v (pre @ (k, t) # rest) = pre @ (k, v) # store k v rest"
  using assms by (induction pre) (auto simp: store_def)

lemma map_delete_middle:
  assumes "k \<notin> fst ` set pre" "k \<notin> fst ` set rest"
  shows "map_delete k (pre @ (k, v) # rest) = pre @ rest"
proof -
  have "filter (\<lambda>kv. fst kv \<noteq> k) xs = xs" if "k \<notin> fst ` set xs" for xs :: "(nat \<times> 'a) list"
    using that by (induction xs) auto
  with assms show ?thesis
    by (simp add: map_delete_def)
qed

lemma evictedIds_Cons:
  "evictedIds now ((k, t) # kts) =
     (if evicts now t then insert k (evictedIds now kts) else evictedIds now kts)"
  by (auto simp: evictedIds_def)

lemma trackersLoop_spec:
  assumes "innerWidth e \<noteq> 0" "innerHeight e \<noteq> 0"
    and "distinct (map fst (pre @ kts))" "\<forall>kt \<in> set kts. t_id (snd kt) = fst kt"
    and "trackers s = pre @ kts"
  shows "trackersLoop e now kts (s, out) =
     Inr (s\<lparr>labels := labels s - evictedIds now kts,
            trackers := pre @ tickTrackers e now kts\<rparr>,
          out @ tickObjects e now kts)"
  using assms(3-)
proof (induction kts arbitrary: pre s out)
  case Nil
  then show ?case
    by (simp add: evictedIds_def)
next
  case (Cons kt kts)
  obtain k t where kt: "kt = (k, t)"
    by (cases kt) auto
  from calcFor_ok [OF assms(1,2), of t] obtain calc where calc: "calcFor e t = Inr calc"
    by blast
  have k: "k \<notin> fst ` set pre" "k \<notin> fst ` set kts" and id: "t_id t = k"
    using Cons.prems(1,2) by (auto simp: kt)
  have rest: "store k v kts = kts" for v :: TrackerState
    using k(2) by (rule store_absent)
  show ?case
  proof (cases "evicts now t")
    case True
    let ?s1 = "s\<lparr>labels := labels s - {k}, trackers := pre @ kts\<rparr>"
    have step: "updateTracker e now kt (s, out) = Inr (?s1, out)"
      using calc True id k
      by (simp add: kt updateTracker_unfold Cons.prems(3) store_middle rest removeTracker_def
          map_delete_middle moved_def)
    have "trackersLoop e now kts (?s1, out) =
       Inr (?s1\<lparr>labels := labels ?s1 - evictedIds now kts,
                 trackers := pre @ tickTrackers e now kts\<rparr>,
            out @ tickObjects e now kts)"
      using Cons.prems(1,2) by (intro Cons.IH) (auto simp: kt)
    then show ?thesis
      using step calc True by (simp add: kt evictedIds_Cons Diff_insert2 [symmetric] insert_commute)
  next
    case False
    let ?t2 = "scanned (moved e now calc t)"
    let ?s1 = "s\<lparr>trackers := (pre @ [(k, ?t2)]) @ kts\<rparr>"
    have step: "updateTracker e now kt (s, out) = Inr (?s1, out @ [toObject e now ?t2])"
      using calc False id k
      by (simp add: kt updateTracker_unfold Cons.prems(3) store_middle rest)
    have "trackersLoop e now kts (?s1, out @ [toObject e now ?t2]) =
       Inr (?s1\<lparr>labels := labels ?s1 - evictedIds now kts,
                 trackers := (pre @ [(k, ?t2)]) @ tickTrackers e now kts\<rparr>,
            (out @ [toObject e now ?t2]) @ tickObjects e now kts)"
      using Cons.prems(1,2) by (intro Cons.IH) (auto simp: kt)
    then show ?thesis
      using step calc False by (simp add: kt evictedIds_Cons)
  qed
qed

lemma updateVisualsAndPhysics_spec:
  assumes "innerWidth e \<noteq> 0" "innerHeight e \<noteq> 0" "wellFormed s"
  shows "updateVisualsAndPhysics e now s =
     Inr (s\<lparr>labels := labels s - evictedIds now (trackers s),
            trackers := tickTrackers e now (trackers s)\<rparr>,
          sort_key (\<lambda>ob. - vz (position3D ob)) (tickObjects e now (trackers s)))"
proof -
  have "trackersLoop e now (trackers s) (s, []) =
     Inr (s\<lparr>labels := labels s - evictedIds now (trackers s),
            trackers := [] @ tickTrackers e now (trackers s)\<rparr>,
          [] @ tickObjects e now (trackers s))"
    using assms by (intro trackersLoop_spec) (auto simp: wellFormed_def)
  then show ?thesis
    by (simp add: updateVisualsAndPhysics_def)
qed

lemma tickTrackers_keys: "fst ` set (tickTrackers e now kts) \<subseteq> fst ` set kts"
proof (induction kts)
  case Nil
  then show ?case by simp
next
  case (Cons kt kts)
  obtain k t where kt: "kt = (k, t)"
    by (cases kt) auto
  from Cons show ?case
    unfolding kt by (cases "calcFor e t") auto
qed

lemma tickTrackers_distinct:
  "distinct (map fst kts) \<Longrightarrow> distinct (map fst (tickTrackers e now kts))"
proof (induction kts)
  case Nil
  then show ?case by simp
next
  case (Cons kt kts)
  obtain k t where kt: "kt = (k, t)"
    by (cases kt) auto
  from Cons show ?case
    unfolding kt using tickTrackers_keys [of e now kts] by (cases "calcFor e t") auto
qed

lemma tickTrackers_lookup:
  assumes "distinct (map fst kts)" "map_of kts k = Some t" "calcFor e t = Inr calc"
  shows "map_of (tickTrackers e now kts) k =
           (if evicts now t then None else Some (scanned (moved e now calc t)))"
  using assms(1,2)
proof (induction kts)
  case Nil
  then show ?case by simp
next
  case (Cons kt kts)
  obtain k' t' where kt: "kt = (k', t')"
    by (cases kt) auto
  show ?case
  proof (cases "k' = k")
    case True
    then have t: "t' = t" and notin: "k \<notin> fst ` set kts"
      using Cons.prems by (auto simp: kt)
    have "map_of (tickTrackers e now kts) k = None"
      using notin tickTrackers_keys [of e now kts] by (auto simp: map_of_eq_None_iff)
    then show ?thesis
      using True t assms(3) by (simp add: kt)
  next
    case False
    then have "map_of kts k = Some t" "distinct (map fst kts)"
      using Cons.prems by (auto simp: kt)
    then have "map_of (tickTrackers e now kts) k =
           (if evicts now t then None else Some (scanned (moved e now calc t)))"
      by (rule Cons.IH [rotated])
    then show ?thesis
      using False unfolding kt by (cases "calcFor e t'") auto
  qed
qed

lemma tickTrackers_entries:
  assumes "kt \<in> set (tickTrackers e now kts)"
  shows "\<exists>t calc. (fst kt, t) \<in> set kts \<and> calcFor e t = Inr calc \<and> \<not> evicts now t
           \<and> snd kt = scanned (moved e now calc t)"
  using assms
proof (induction kts)
  case Nil
  then show ?case by simp
next
  case (Cons a kts)
  obtain k' t' where a: "a = (k', t')"
    by (cases a) auto
  from Cons show ?case
    unfolding a by (cases "calcFor e t'"; cases "evicts now t'") auto
qed

lemma tickObjects_entries:
  assumes "ob \<in> set (tickObjects e now kts)"
  shows "\<exists>k t calc. (k, t) \<in> set kts \<and> calcFor e t = Inr calc \<and> \<not> evicts now t
           \<and> ob = toObject e now (scanned (moved e now calc t))"
  using assms
proof (induction kts)
  case Nil
  then show ?case by simp
next
  case (Cons a kts)
  obtain k' t' where a: "a = (k', t')"
    by (cases a) auto
  from Cons show ?case
    unfolding a by (cases "calcFor e t'"; cases "evicts now t'") auto
qed

lemma tickObjects_member:
  assumes "(k, t) \<in> set kts" "calcFor e t = Inr calc" "\<not> evicts now t"
  shows "toObject e now (scanned (moved e now calc t)) \<in> set (tickObjects e now kts)"
  using assms(1)
proof (induction kts)
  case Nil
  then show ?case by simp
next
  case (Cons a kts)
  obtain k' t' where a: "a = (k', t')"
    by (cases a) auto
  from Cons assms(2,3) show ?case
    unfolding a by (cases "calcFor e t'"; cases "evicts now t'") auto
qed

lemma t_id_survivor [simp]: "t_id (scanned (moved e now calc t)) = t_id t"
  by (simp add: scanned_def moved_def)

lemma wellFormed_tick:
  assumes "wellFormed s"
  shows "wellFormed (s\<lparr>labels := labels s - evictedIds now (trackers s),
                       trackers := tickTrackers e now (trackers s)\<rparr>)"
proof -
  have "t_id (snd kt) = fst kt \<and> 0 < fst kt \<and> fst kt < nextId s"
    if "kt \<in> set (tickTrackers e now (trackers s))" for kt
  proof -
    from tickTrackers_entries [OF that] obtain t calc where
      "(fst kt, t) \<in> set (trackers s)" "snd kt = scanned (moved e now calc t)"
      by blast
    with assms show ?thesis
      by (fastforce simp: wellFormed_def)
  qed
  with assms show ?thesis
    by (auto simp: wellFormed_def tickTrackers_distinct)
qed

section \<open>Properties of runs\<close>

lemma tickObjects_ids:
  assumes "\<forall>kt \<in> set kts. t_id (snd kt) = fst kt"
  shows "o_id ` set (tickObjects e now kts) = fst ` set (tickTrackers e now kts)"
  using assms
proof (induction kts)
  case Nil
  then show ?case by simp
next
  case (Cons a kts)
  obtain k t where a: "a = (k, t)"
    by (cases a) auto
  from Cons show ?case
    unfolding a by (cases "calcFor e t"; cases "evicts now t") (auto simp: toObject_def)
qed

lemma checkSceneChange_frame:
  "trackers (fst (checkSceneChange e now ids cls s)) = trackers s"
  "labels (fst (checkSceneChange e now ids cls s)) = labels s"
  "nextId (fst (checkSceneChange e now ids cls s)) = nextId s"
  by (simp_all add: checkSceneChange_def Let_def)

lemma wellFormed_cong:
  "trackers s' = trackers s \<Longrightarrow> labels s' = labels s \<Longrightarrow> nextId s' = nextId s
     \<Longrightarrow> wellFormed s' = wellFormed s"
  by (simp add: wellFormed_def)

lemma gone_cong:
  "trackers s' = trackers s \<Longrightarrow> labels s' = labels s \<Longrightarrow> nextId s' = nextId s
     \<Longrightarrow> gone k s' = gone k s"
  by (simp add: gone_def keys_def)

lemma handleWorkerPredictions_gone:
  assumes "wellFormed s" "gone k s"
  shows "\<exists>s' ev. handleWorkerPredictions e now now' preds sf s = Inr (s', ev)
           \<and> wellFormed s' \<and> gone k s'"
proof (cases "isMovingFast e")
  case True
  with assms show ?thesis
    by (simp add: handleWorkerPredictions_def)
next
  case False
  from handleWorkerPredictions_result [OF assms(1) False, of now sf preds now']
  obtain s1 av ac where
    r: "wellFormed s1" "grows s s1"
      "handleWorkerPredictions e now now' preds sf s
            = Inr (checkSceneChange e now' ac
                     (map p_class (filter (\<lambda>p. \<not> score p < 0.2) preds)) s1)"
    by blast
  let ?r = "checkSceneChange e now' ac (map p_class (filter (\<lambda>p. \<not> score p < 0.2) preds)) s1"
  have g: "gone k s1"
    using assms(2) r(2) unfolding gone_def grows_def by auto
  have "wellFormed (fst ?r) = wellFormed s1" "gone k (fst ?r) = gone k s1"
    by (intro wellFormed_cong gone_cong checkSceneChange_frame)+
  with r(1) g have "wellFormed (fst ?r)" "gone k (fst ?r)"
    by simp_all
  then show ?thesis
    unfolding r(3) by (cases ?r) auto
qed

lemma tick_gone:
  assumes "wellFormed s" "gone k s" "innerWidth e \<noteq> 0" "innerHeight e \<noteq> 0"
  shows "\<exists>s' out. updateVisualsAndPhysics e now s = Inr (s', out)
           \<and> wellFormed s' \<and> gone k s' \<and> k \<notin> o_id ` set out"
proof -
  have ids: "\<forall>kt \<in> set (trackers s). t_id (snd kt) = fst kt"
    using assms(1) by (simp add: wellFormed_def)
  have "k \<notin> fst ` set (tickTrackers e now (trackers s))"
    using assms(2) tickTrackers_keys [of e now "trackers s"] by (auto simp: gone_def keys_def)
  then show ?thesis
    unfolding updateVisualsAndPhysics_spec [OF assms(3,4,1)]
    using wellFormed_tick [OF assms(1), where now = now and e = e] assms(2)
      tickObjects_ids [OF ids, where e = e and now = now]
    by (auto simp: gone_def keys_def)
qed

lemma run_gone:
  assumes "wellFormed s" "gone k s" "\<forall>i \<in> set ins. viewportOk i"
  shows "\<exists>s' outs. run ins s = Inr (s', outs) \<and> wellFormed s' \<and> gone k s'
           \<and> (\<forall>out \<in> set outs. k \<notin> o_id ` set out)"
  using assms
proof (induction ins arbitrary: s)
  case Nil
  then show ?case by simp
next
  case (Cons i ins)
  show ?case
  proof (cases i)
    case (Detections e now now' preds sf)
    from handleWorkerPredictions_gone [OF Cons.prems(1,2), of e now now' preds sf]
    obtain s1 ev where
      a: "handleWorkerPredictions e now now' preds sf s = Inr (s1, ev)" "wellFormed s1" "gone k s1"
      by blast
    from Cons.IH [OF a(2,3)] Cons.prems(3) show ?thesis
      using a(1) by (simp add: Detections)
  next
    case (Frame e now)
    then have v: "innerWidth e \<noteq> 0" "innerHeight e \<noteq> 0"
      using Cons.prems(3) by simp_all
    from tick_gone [OF Cons.prems(1,2) v, of now]
    obtain s1 out where
      a: "updateVisualsAndPhysics e now s = Inr (s1, out)" "wellFormed s1" "gone k s1"
        "k \<notin> o_id ` set out"
      by blast
    from Cons.IH [OF a(2,3)] Cons.prems(3) obtain s' outs where
      b: "run ins s1 = Inr (s', outs)" "wellFormed s'" "gone k s'"
        "\<forall>out \<in> set outs. k \<notin> o_id ` set out"
      by auto
    show ?thesis
      using a(1,4) b by (simp add: Frame)
  qed
qed

text \<open>
  Every state that a run reaches from \<open>initialState\<close> is well-formed, and a run whose
  frames have a viewport that is not empty ends.
\<close>

lemma wellFormed_initialState: "wellFormed initialState"
  by (simp add: wellFormed_def initialState_def)

lemma run_wellFormed:
  assumes "wellFormed s" "list_all viewportOk ins"
  shows "\<exists>s' outs. run ins s = Inr (s', outs) \<and> wellFormed s'"
proof -
  have "gone 0 s"
    using assms(1) by (fastforce simp: gone_def wellFormed_def keys_def)
  moreover have "\<forall>i \<in> set ins. viewportOk i"
    using assms(2) by (simp add: list_all_iff)
  ultimately show ?thesis
    using run_gone [OF assms(1), of 0 ins] by blast
qed

section \<open>The claims about ticks and batches\<close>

lemma wellFormed_example: "wellFormed (exampleState op)"
  by (simp add: wellFormed_def exampleState_def exampleTracker_def newTracker_def)

lemma example_lookup: "map_of (trackers (exampleState op)) 1 = Some (exampleTracker op)"
  by (simp add: exampleState_def)

lemma example_fields:
  "lastSeenTime (exampleTracker op) = 0" "opacity (exampleTracker op) = op"
  "t_id (exampleTracker op) = 1" "t_class (exampleTracker op) = ''person''"
  "lockedBox (exampleTracker op) = (100, 100, 50, 50)"
  by (simp_all add: exampleTracker_def newTracker_def examplePrediction_def)

lemma example_viewport: "innerWidth exampleEnv \<noteq> 0" "innerHeight exampleEnv \<noteq> 0"
  by (simp_all add: exampleEnv_def)

lemma updateTracker_objects:
  assumes "updateTracker e now kt (s, out) = Inr (s', out')"
    and "\<forall>ob \<in> set out. confidence ob = 1 \<and> \<not> isOccluded ob"
  shows "\<forall>ob \<in> set out'. confidence ob = 1 \<and> \<not> isOccluded ob"
proof -
  obtain k t where kt: "kt = (k, t)"
    by (cases kt) auto
  from assms show ?thesis
    unfolding kt updateTracker_unfold
    by (auto simp: toObject_def split: sum.splits if_splits)
qed

lemma trackersLoop_objects:
  assumes "trackersLoop e now kts (s, out) = Inr (s', out')"
    and "\<forall>ob \<in> set out. confidence ob = 1 \<and> \<not> isOccluded ob"
  shows "\<forall>ob \<in> set out'. confidence ob = 1 \<and> \<not> isOccluded ob"
  using assms
proof (induction kts arbitrary: s out)
  case Nil
  then show ?case by simp
next
  case (Cons kt kts)
  from Cons.prems(1) obtain s1 out1 where
    a: "updateTracker e now kt (s, out) = Inr (s1, out1)"
      "trackersLoop e now kts (s1, out1) = Inr (s', out')"
    by (auto split: sum.splits)
  from updateTracker_objects [OF a(1) Cons.prems(2)] Cons.IH [OF a(2)] show ?case
    by blast
qed

text \<open>
  Claim C10. Every object of the list that a tick hands to \<^verbatim>\<open>onUpdateLocalObjects\<close> has
  confidence 1 and is not occluded, whatever the scores of the detections that created or
  updated its track. In a well-formed state with a viewport that is not empty the tick
  does return such a list, with one object for every track that it keeps.
\<close>

theorem C10_output_confidence:
  "(updateVisualsAndPhysics e now s = Inr (s', out) \<longrightarrow>
      (\<forall>ob \<in> set out. confidence ob = 1 \<and> \<not> isOccluded ob))
   \<and> (wellFormed s \<and> innerWidth e \<noteq> 0 \<and> innerHeight e \<noteq> 0 \<longrightarrow>
      (\<exists>s1 out1. updateVisualsAndPhysics e now s = Inr (s1, out1)
         \<and> o_id ` set out1 = keys s1))"
proof (intro conjI impI)
  assume r: "updateVisualsAndPhysics e now s = Inr (s', out)"
  then obtain objs where
    a: "trackersLoop e now (trackers s) (s, []) = Inr (s', objs)"
      "out = sort_key (\<lambda>ob. - vz (position3D ob)) objs"
    by (auto simp: updateVisualsAndPhysics_def split: sum.splits)
  from trackersLoop_objects [OF a(1)] show "\<forall>ob \<in> set out. confidence ob = 1 \<and> \<not> isOccluded ob"
    unfolding a(2) by simp
next
  assume w: "wellFormed s \<and> innerWidth e \<noteq> 0 \<and> innerHeight e \<noteq> 0"
  then have ids: "\<forall>kt \<in> set (trackers s). t_id (snd kt) = fst kt"
    by (simp add: wellFormed_def)
  from w have v: "innerWidth e \<noteq> 0" "innerHeight e \<noteq> 0" "wellFormed s"
    by simp_all
  show "\<exists>s1 out1. updateVisualsAndPhysics e now s = Inr (s1, out1) \<and> o_id ` set out1 = keys s1"
    unfolding updateVisualsAndPhysics_spec [OF v]
    using tickObjects_ids [OF ids, where e = e and now = now] by (simp add: keys_def)
qed

lemma example_tick:
  assumes "\<not> evicts now (exampleTracker op)"
  shows "\<exists>calc. calcFor exampleEnv (exampleTracker op) = Inr calc
     \<and> updateVisualsAndPhysics exampleEnv now (exampleState op) =
         Inr ((exampleState op)\<lparr>trackers :=
                 [(1, scanned (moved exampleEnv now calc (exampleTracker op)))]\<rparr>,
              [toObject exampleEnv now (scanned (moved exampleEnv now calc (exampleTracker op)))])"
proof -
  from calcFor_ok [OF example_viewport, of "exampleTracker op"] obtain calc where
    c: "calcFor exampleEnv (exampleTracker op) = Inr calc"
    by blast
  show ?thesis
    unfolding updateVisualsAndPhysics_spec [OF example_viewport wellFormed_example]
    using c assms by (simp add: exampleState_def evictedIds_def)
qed

theorem C10_output_confidence_witness:
  "\<exists>s' out. updateVisualsAndPhysics exampleEnv 100 (exampleState 1) = Inr (s', out)
      \<and> out \<noteq> [] \<and> o_id ` set out = keys s'
      \<and> (\<forall>ob \<in> set out. confidence ob = 1 \<and> \<not> isOccluded ob)"
proof -
  have "\<not> evicts 100 (exampleTracker 1)"
    by (simp add: evicts_def isLost_def example_fields)
  from example_tick [OF this] obtain s' out where
    a: "updateVisualsAndPhysics exampleEnv 100 (exampleState 1) = Inr (s', out)" "out \<noteq> []"
    by auto
  note th = C10_output_confidence [of exampleEnv 100 "exampleState 1" s' out]
  from th a(1) have 1: "\<forall>ob \<in> set out. confidence ob = 1 \<and> \<not> isOccluded ob"
    by blast
  from th a(1) wellFormed_example [of 1] example_viewport have 2: "o_id ` set out = keys s'"
    by auto
  from a 1 2 show ?thesis
    by blast
qed

lemma tick_tracker:
  assumes "wellFormed s" "innerWidth e \<noteq> 0" "innerHeight e \<noteq> 0"
    and "map_of (trackers s) k = Some t"
  shows "\<exists>s' out calc. updateVisualsAndPhysics e now s = Inr (s', out)
     \<and> calcFor e t = Inr calc \<and> wellFormed s' \<and> nextId s' = nextId s
     \<and> (if evicts now t
         then gone k s' \<and> k \<notin> o_id ` set out
         else map_of (trackers s') k = Some (scanned (moved e now calc t))
              \<and> toObject e now (scanned (moved e now calc t)) \<in> set out)"
proof -
  from calcFor_ok [OF assms(2,3), of t] obtain calc where c: "calcFor e t = Inr calc"
    by blast
  have d: "distinct (map fst (trackers s))"
    and ids: "\<forall>kt \<in> set (trackers s). t_id (snd kt) = fst kt"
    using assms(1) by (simp_all add: wellFormed_def)
  note l = tickTrackers_lookup [OF d assms(4) c, of now]
  note m = map_of_SomeD [OF assms(4)]
  show ?thesis
  proof (cases "evicts now t")
    case True
    have "k \<in> evictedIds now (trackers s)"
      using m True by (force simp: evictedIds_def)
    moreover have "k \<notin> fst ` set (tickTrackers e now (trackers s))"
      using l True by (simp add: map_of_eq_None_iff)
    ultimately show ?thesis
      unfolding updateVisualsAndPhysics_spec [OF assms(2,3,1)]
      using c True wellFormed_tick [OF assms(1), where now = now and e = e]
        wf_lookup(3) [OF assms(1,4)] tickObjects_ids [OF ids, where e = e and now = now]
      by (simp add: gone_def keys_def)
  next
    case False
    show ?thesis
      unfolding updateVisualsAndPhysics_spec [OF assms(2,3,1)]
      using c False l wellFormed_tick [OF assms(1), where now = now and e = e]
        tickObjects_member [OF m c False]
      by simp
  qed
qed

lemma processPrediction_tracker:
  assumes "wellFormed s" "set av \<subseteq> keys s" "map_of (trackers s) k = Some t"
  shows "\<exists>s' av' cl' ac'. processPrediction e now sf pred (s, av, cl, ac) = Inr (s', av', cl', ac')
     \<and> (if k \<in> set av \<and> k \<notin> set av'
         then map_of (trackers s') k = Some (matchUpdate e now sf pred t)
              \<and> t_class t = p_class pred \<and> \<not> score pred < 0.2
         else map_of (trackers s') k = Some t)"
proof (cases "score pred < 0.2")
  case True
  with assms(3) show ?thesis
    by (simp add: processPrediction_low)
next
  case False
  let ?sb = "scaleBox (p_bbox pred) sf"
  let ?D = "cornerDist (trackers s) (fst ?sb) (fst (snd ?sb))"
  let ?C = "candidate (trackers s) (p_class pred)"
  have kk: "k \<in> fst ` set (trackers s)"
    using wf_lookup(4) [OF assms(1,3)] by (simp add: keys_def)
  show ?thesis
  proof (cases "\<exists>u \<in> set av. ?C u \<and> ?D u < 200")
    case True
    have z: "0 \<notin> set av"
      using assms by (fastforce simp: wellFormed_def keys_def)
    from processPrediction_match [OF False assms(2) z True, of e now cl ac]
    obtain pre tid post t0 where
      p: "av = pre @ tid # post" "map_of (trackers s) tid = Some t0" "t_class t0 = p_class pred"
        "processPrediction e now sf pred (s, av, cl, ac) =
         Inr (s\<lparr>trackers := store tid (matchUpdate e now sf pred t0) (trackers s)\<rparr>,
              removeAll tid av, cl @ [p_class pred], set_add tid ac)"
      unfolding matchUpdate_def by blast
    have tk: "tid \<in> fst ` set (trackers s)"
      using wf_lookup(4) [OF assms(1) p(2)] by (simp add: keys_def)
    show ?thesis
    proof (cases "k = tid")
      case True
      then have "t0 = t"
        using p(2) assms(3) by simp
      then show ?thesis
        unfolding p(4) using True p(1,3) tk False by (simp add: map_of_store)
    next
      case ne: False
      then show ?thesis
        unfolding p(4) using assms(3) by (simp add: map_of_store)
    qed
  next
    case none: False
    then have all: "\<forall>u \<in> set av. ?C u \<longrightarrow> 200 \<le> ?D u"
      by auto
    note c = processPrediction_create [OF False assms(2) all, of e now cl ac]
    note w = wf_create [OF assms(1), of e now pred ?sb]
    show ?thesis
      unfolding c using assms(3) kk unfolding w(2) by (simp add: map_add_def)
  qed
qed

text \<open>
  Claim C2. In a well-formed state a track that has not been seen for more than 500 ms is
  Lost, and a tick lowers its opacity by 0.05. When the lowered opacity is below 0.05, the
  tick evicts the track: its label is released, it leaves the registry and the output of
  this tick, and whatever batches and ticks follow, its id is in no later registry, label
  set or output. Otherwise the track stays, with the lowered opacity, and is part of the
  output.
\<close>

theorem C2_lost_and_evicted:
  assumes "wellFormed s" "innerWidth e \<noteq> 0" "innerHeight e \<noteq> 0"
    and "map_of (trackers s) k = Some t" and "now - lastSeenTime t > 500"
    and "list_all viewportOk later"
  shows "\<exists>s' out. updateVisualsAndPhysics e now s = Inr (s', out)
     \<and> (if opacity t - 0.05 < 0.05
         then k \<notin> keys s' \<and> k \<notin> labels s' \<and> k \<notin> o_id ` set out
              \<and> (\<exists>s'' outs. run later s' = Inr (s'', outs) \<and> k \<notin> keys s'' \<and> k \<notin> labels s''
                    \<and> (\<forall>out' \<in> set outs. k \<notin> o_id ` set out'))
         else \<exists>t'. map_of (trackers s') k = Some t' \<and> opacity t' = opacity t - 0.05
                \<and> k \<in> o_id ` set out)"
proof -
  from tick_tracker [OF assms(1-4), of now] obtain s' out calc where
    a: "updateVisualsAndPhysics e now s = Inr (s', out)" "wellFormed s'"
      "if evicts now t
         then gone k s' \<and> k \<notin> o_id ` set out
         else map_of (trackers s') k = Some (scanned (moved e now calc t))
              \<and> toObject e now (scanned (moved e now calc t)) \<in> set out"
    by blast
  have lost: "isLost now t"
    using assms(5) by (simp add: isLost_def)
  show ?thesis
  proof (cases "opacity t - 0.05 < 0.05")
    case True
    then have g: "gone k s'" "k \<notin> o_id ` set out"
      using a(3) lost by (simp_all add: evicts_def)
    have "\<forall>i \<in> set later. viewportOk i"
      using assms(6) by (simp add: list_all_iff)
    from run_gone [OF a(2) g(1) this] obtain s'' outs where
      "run later s' = Inr (s'', outs)" "gone k s''" "\<forall>out' \<in> set outs. k \<notin> o_id ` set out'"
      by blast
    then show ?thesis
      using a(1) g True by (auto simp: gone_def)
  next
    case False
    then have b: "map_of (trackers s') k = Some (scanned (moved e now calc t))"
        "toObject e now (scanned (moved e now calc t)) \<in> set out"
      using a(3) by (simp_all add: evicts_def)
    have "o_id (toObject e now (scanned (moved e now calc t))) = k"
      using wf_lookup(1) [OF assms(1,4)] by (simp add: toObject_def)
    with b(2) have "k \<in> o_id ` set out"
      by force
    moreover have "opacity (scanned (moved e now calc t)) = opacity t - 0.05"
      using lost by (simp add: scanned_def moved_def)
    ultimately show ?thesis
      using a(1) b(1) False by simp
  qed
qed

theorem C2_lost_and_evicted_witness:
  "wellFormed (exampleState 0.08) \<and> innerWidth exampleEnv \<noteq> 0 \<and> innerHeight exampleEnv \<noteq> 0
   \<and> map_of (trackers (exampleState 0.08)) 1 = Some (exampleTracker 0.08)
   \<and> 1000 - lastSeenTime (exampleTracker 0.08) > 500
   \<and> list_all viewportOk exampleLater
   \<and> (\<exists>s' out. updateVisualsAndPhysics exampleEnv 1000 (exampleState 0.08) = Inr (s', out)
        \<and> 1 \<notin> keys s' \<and> 1 \<notin> labels s' \<and> 1 \<notin> o_id ` set out
        \<and> (\<exists>s'' outs. run exampleLater s' = Inr (s'', outs) \<and> 1 \<notin> keys s'' \<and> 1 \<notin> labels s''
              \<and> (\<forall>out' \<in> set outs. 1 \<notin> o_id ` set out')))
   \<and> (\<exists>s' out t'. updateVisualsAndPhysics exampleEnv 1000 (exampleState 1) = Inr (s', out)
        \<and> map_of (trackers s') 1 = Some t' \<and> opacity t' = 0.95 \<and> 1 \<in> o_id ` set out)"
proof -
  have v: "list_all viewportOk exampleLater"
    by (simp add: exampleLater_def exampleEnv_def)
  have l: "1000 - lastSeenTime (exampleTracker op) > 500" for op
    by (simp add: example_fields)
  note a = C2_lost_and_evicted [OF wellFormed_example example_viewport example_lookup l v,
      of "0.08"]
  note b = C2_lost_and_evicted [OF wellFormed_example example_viewport example_lookup l v,
      of 1]
  show ?thesis
    using a b wellFormed_example example_viewport example_lookup l v
    by (simp add: example_fields)
qed

lemma lerp_towards:
  assumes "0 \<le> f" "f \<le> 1"
  shows "towards a b (a + (b - a) * f)"
proof -
  have "\<bar>(b - a) * f\<bar> = \<bar>b - a\<bar> * f"
    using assms(1) by (simp add: abs_mult)
  also have "\<dots> \<le> \<bar>b - a\<bar> * 1"
    using assms(2) by (intro mult_left_mono) simp_all
  finally have 1: "\<bar>a + (b - a) * f - a\<bar> \<le> \<bar>b - a\<bar>"
    by simp
  have "b - (a + (b - a) * f) = (b - a) * (1 - f)"
    by (simp add: algebra_simps)
  then have "\<bar>b - (a + (b - a) * f)\<bar> = \<bar>b - a\<bar> * (1 - f)"
    using assms(2) by (simp add: abs_mult)
  also have "\<dots> \<le> \<bar>b - a\<bar> * 1"
    using assms(1) by (intro mult_left_mono) simp_all
  finally have 2: "\<bar>b - (a + (b - a) * f)\<bar> \<le> \<bar>b - a\<bar>"
    by simp
  from 1 2 show ?thesis
    by (simp add: towards_def)
qed

lemma approach_towards:
  assumes "0 \<le> f" "f \<le> 1"
  shows "vecTowards cur tgt (approach cur tgt f)"
  using lerp_towards [OF assms] by (simp add: vecTowards_def approach_def)

lemma lerpBox_towards:
  assumes "0 \<le> f" "f \<le> 1"
  shows "boxTowards l sb (lerpBox l sb f)"
  using lerp_towards [OF assms]
  by (cases l; cases sb) (simp add: boxTowards_def lerpBox_def)

lemma survivor_fields:
  "opacity (scanned (moved e now calc t)) =
     (if now - lastSeenTime t > 500 then opacity t - 0.05 else opacity t)"
  "lastSeenTime (scanned (moved e now calc t)) = lastSeenTime t"
  "t_class (scanned (moved e now calc t)) = t_class t"
  "lockedBox (scanned (moved e now calc t)) = lockedBox t"
  "target (physics (scanned (moved e now calc t))) = calc"
  "current (physics (scanned (moved e now calc t))) =
     approach (current (physics t)) calc (if isMovingFast e then 0.9 else 0.2)"
  by (simp_all add: scanned_def moved_def isLost_def)

lemma matchUpdate_fields:
  "opacity (matchUpdate e now sf pred t) = 1"
  "lastSeenTime (matchUpdate e now sf pred t) = now"
  "t_id (matchUpdate e now sf pred t) = t_id t"
  "t_class (matchUpdate e now sf pred t) = t_class t"
  "physics (matchUpdate e now sf pred t) = physics t"
  "lockedBox (matchUpdate e now sf pred t) =
     lerpBox (lockedBox t) (scaleBox (p_bbox pred) sf)
       (if processingInterval e > 300 then 0.5 else 0.4)"
  by (simp_all add: matchUpdate_def)

text \<open>
  Claim C3, amended. The opacity of a track follows the ticks and the matches, not the
  elapsed time alone. A tick leaves the opacity of a track seen within the last 500 ms
  unchanged and lowers the opacity of a Lost track by 0.05 (or evicts it when the lowered
  value is below 0.05); it never raises it and keeps the id and the time of the last
  match. A detection that is matched to the track (the track leaves the set of available
  trackers) sets the opacity to 1 and the time of the last match to the time of the batch,
  whatever the opacity was, and keeps the id; a detection that is not matched to it
  leaves the track as it is.
\<close>

theorem C3_opacity:
  assumes "wellFormed s" "map_of (trackers s) k = Some t"
    and "innerWidth e \<noteq> 0" "innerHeight e \<noteq> 0" "set av \<subseteq> keys s"
  shows "(\<exists>s' out. updateVisualsAndPhysics e now s = Inr (s', out)
           \<and> (case map_of (trackers s') k of
                 None \<Rightarrow> now - lastSeenTime t > 500 \<and> opacity t - 0.05 < 0.05
               | Some t' \<Rightarrow> t_id t' = t_id t \<and> lastSeenTime t' = lastSeenTime t
                   \<and> opacity t' = (if now - lastSeenTime t > 500 then opacity t - 0.05
                                    else opacity t)))
       \<and> (\<exists>s' av' cl' ac' t'.
             processPrediction e' now' sf pred (s, av, cl, ac) = Inr (s', av', cl', ac')
           \<and> map_of (trackers s') k = Some t' \<and> t_id t' = t_id t
           \<and> (if k \<in> set av \<and> k \<notin> set av'
               then opacity t' = 1 \<and> lastSeenTime t' = now' \<and> t_class t = p_class pred
               else t' = t))"
proof -
  from tick_tracker [OF assms(1,3,4,2), of now] obtain s' out calc where
    a: "updateVisualsAndPhysics e now s = Inr (s', out)"
      "if evicts now t
         then gone k s' \<and> k \<notin> o_id ` set out
         else map_of (trackers s') k = Some (scanned (moved e now calc t))
              \<and> toObject e now (scanned (moved e now calc t)) \<in> set out"
    by blast
  have tick: "case map_of (trackers s') k of
                 None \<Rightarrow> now - lastSeenTime t > 500 \<and> opacity t - 0.05 < 0.05
               | Some t' \<Rightarrow> t_id t' = t_id t \<and> lastSeenTime t' = lastSeenTime t
                   \<and> opacity t' = (if now - lastSeenTime t > 500 then opacity t - 0.05
                                    else opacity t)"
  proof (cases "evicts now t")
    case True
    then have "map_of (trackers s') k = None"
      using a(2) by (simp add: gone_def keys_def map_of_eq_None_iff)
    with True show ?thesis
      by (simp add: evicts_def isLost_def)
  next
    case False
    then show ?thesis
      using a(2) by (simp add: survivor_fields)
  qed
  from processPrediction_tracker [OF assms(1,5,2), of e' now' sf pred cl ac]
  obtain s2 av' cl' ac' where
    b: "processPrediction e' now' sf pred (s, av, cl, ac) = Inr (s2, av', cl', ac')"
      "if k \<in> set av \<and> k \<notin> set av'
         then map_of (trackers s2) k = Some (matchUpdate e' now' sf pred t)
              \<and> t_class t = p_class pred \<and> \<not> score pred < 0.2
         else map_of (trackers s2) k = Some t"
    by blast
  have "\<exists>t'. map_of (trackers s2) k = Some t' \<and> t_id t' = t_id t
           \<and> (if k \<in> set av \<and> k \<notin> set av'
               then opacity t' = 1 \<and> lastSeenTime t' = now' \<and> t_class t = p_class pred
               else t' = t)"
    using b(2) by (cases "k \<in> set av \<and> k \<notin> set av'") (auto simp: matchUpdate_fields)
  with a(1) tick b(1) show ?thesis
    by blast
qed

lemma example_match:
  "processPrediction e now 1 (examplePrediction bw) (exampleState op, [1], [], []) =
     Inr ((exampleState op)\<lparr>trackers :=
            [(1, matchUpdate e now 1 (examplePrediction bw) (exampleTracker op))]\<rparr>,
          [], [''person''], [1])"
  by (simp add: processPrediction_def examplePrediction_def exampleState_def exampleTracker_def
      newTracker_def scaleBox_def Let_def truthy_def store_def set_add_def matchUpdate_def)

lemma example_reachable:
  "handleWorkerPredictions exampleEnv 0 0 [examplePrediction 50] 1 initialState
     = Inr (exampleState 1, None)"
  by (simp add: handleWorkerPredictions_def processPrediction_def initialState_def
      exampleState_def exampleTracker_def examplePrediction_def exampleEnv_def scaleBox_def
      truthy_def set_add_def checkSceneChange_def newTracker_def Let_def)

theorem C3_opacity_witness:
  "wellFormed (exampleState 0.3)
   \<and> map_of (trackers (exampleState 0.3)) 1 = Some (exampleTracker 0.3)
   \<and> innerWidth exampleEnv \<noteq> 0 \<and> innerHeight exampleEnv \<noteq> 0
   \<and> set [1] \<subseteq> keys (exampleState 0.3)
   \<and> (\<exists>s' out t'. updateVisualsAndPhysics exampleEnv 1000 (exampleState 0.3) = Inr (s', out)
         \<and> map_of (trackers s') 1 = Some t' \<and> opacity t' = 0.25)
   \<and> (\<exists>s' av' cl' ac' t'.
         processPrediction exampleEnv 2000 1 (examplePrediction 50)
           (exampleState 0.3, [1], [], []) = Inr (s', av', cl', ac')
         \<and> map_of (trackers s') 1 = Some t' \<and> t_id t' = 1 \<and> opacity t' = 1
         \<and> lastSeenTime t' = 2000)"
proof -
  have k: "set [1] \<subseteq> keys (exampleState 0.3)"
    by (simp add: keys_def exampleState_def)
  note th = C3_opacity [OF wellFormed_example example_lookup example_viewport k,
      of 1000 exampleEnv 2000 1 "examplePrediction 50" "[]" "[]"]
  from th obtain s' out where
    a: "updateVisualsAndPhysics exampleEnv 1000 (exampleState 0.3) = Inr (s', out)"
      "case map_of (trackers s') 1 of
         None \<Rightarrow> 1000 - lastSeenTime (exampleTracker 0.3) > 500
                 \<and> opacity (exampleTracker 0.3) - 0.05 < 0.05
       | Some t' \<Rightarrow> t_id t' = t_id (exampleTracker 0.3)
           \<and> lastSeenTime t' = lastSeenTime (exampleTracker 0.3)
           \<and> opacity t' = (if 1000 - lastSeenTime (exampleTracker 0.3) > 500
                            then opacity (exampleTracker 0.3) - 0.05
                            else opacity (exampleTracker 0.3))"
    by blast
  from a(2) obtain t' where "map_of (trackers s') 1 = Some t'" "opacity t' = 0.25"
    by (cases "map_of (trackers s') 1") (simp_all add: example_fields)
  with a(1) have tick: "\<exists>s' out t'.
       updateVisualsAndPhysics exampleEnv 1000 (exampleState 0.3) = Inr (s', out)
       \<and> map_of (trackers s') 1 = Some t' \<and> opacity t' = 0.25"
    by blast
  from th have "\<exists>s' av' cl' ac' t'.
         processPrediction exampleEnv 2000 1 (examplePrediction 50)
           (exampleState 0.3, [1], [], []) = Inr (s', av', cl', ac')
         \<and> map_of (trackers s') 1 = Some t' \<and> t_id t' = 1 \<and> opacity t' = 1
         \<and> lastSeenTime t' = 2000"
    unfolding example_match by (simp add: example_fields)
  with tick k wellFormed_example example_lookup example_viewport show ?thesis
    by blast
qed

lemma tick_survivor:
  assumes "wellFormed s" "innerWidth e \<noteq> 0" "innerHeight e \<noteq> 0"
    and "map_of (trackers s) k = Some t" "\<not> evicts now t"
  shows "\<exists>s' out calc. updateVisualsAndPhysics e now s = Inr (s', out) \<and> wellFormed s'
           \<and> map_of (trackers s') k = Some (scanned (moved e now calc t))"
  using tick_tracker [OF assms(1-4), of now] assms(5) by auto

lemma trackAfter_Frame:
  assumes "updateVisualsAndPhysics e now s = Inr (s', out)"
  shows "trackAfter (Frame e now # ins) s k = trackAfter ins s' k"
  using assms by (auto simp: trackAfter_def split: sum.splits)

lemma trackAfter_Nil: "trackAfter [] s k = map_of (trackers s) k"
  by (simp add: trackAfter_def)

text \<open>
  Claim C3 as stated fails: the opacity is not a function of the time since the last
  match. A track matched at time 0 has opacity 0.95 at time 1000 after one tick, and 0.9
  at the same time 1000 after a tick at 600 and one at 1000.
\<close>

theorem C3_counterexample:
  "map_option lastSeenTime (trackAfter [Frame exampleEnv 1000] (exampleState 1) 1) = Some 0
   \<and> map_option opacity (trackAfter [Frame exampleEnv 1000] (exampleState 1) 1) = Some 0.95
   \<and> map_option lastSeenTime
        (trackAfter [Frame exampleEnv 600, Frame exampleEnv 1000] (exampleState 1) 1) = Some 0
   \<and> map_option opacity
        (trackAfter [Frame exampleEnv 600, Frame exampleEnv 1000] (exampleState 1) 1) = Some 0.9"
proof -
  have n1: "\<not> evicts now (exampleTracker 1)" for now
    by (simp add: evicts_def example_fields)
  from tick_survivor [OF wellFormed_example example_viewport example_lookup n1, of 1000]
  obtain sA outA calcA where
    a: "updateVisualsAndPhysics exampleEnv 1000 (exampleState 1) = Inr (sA, outA)"
      "map_of (trackers sA) 1 = Some (scanned (moved exampleEnv 1000 calcA (exampleTracker 1)))"
    by blast
  from tick_survivor [OF wellFormed_example example_viewport example_lookup n1, of 600]
  obtain sB outB calcB where
    b: "updateVisualsAndPhysics exampleEnv 600 (exampleState 1) = Inr (sB, outB)"
      "wellFormed sB"
      "map_of (trackers sB) 1 = Some (scanned (moved exampleEnv 600 calcB (exampleTracker 1)))"
    by blast
  let ?t1 = "scanned (moved exampleEnv 600 calcB (exampleTracker 1))"
  have n2: "\<not> evicts 1000 ?t1"
    by (simp add: evicts_def survivor_fields example_fields)
  from tick_survivor [OF b(2) example_viewport b(3) n2]
  obtain sC outC calcC where
    c: "updateVisualsAndPhysics exampleEnv 1000 sB = Inr (sC, outC)"
      "map_of (trackers sC) 1 = Some (scanned (moved exampleEnv 1000 calcC ?t1))"
    by blast
  have "trackAfter [Frame exampleEnv 1000] (exampleState 1) 1
          = Some (scanned (moved exampleEnv 1000 calcA (exampleTracker 1)))"
    using a(2) by (simp add: trackAfter_Frame [OF a(1)] trackAfter_Nil)
  moreover have "trackAfter [Frame exampleEnv 600, Frame exampleEnv 1000] (exampleState 1) 1
          = Some (scanned (moved exampleEnv 1000 calcC ?t1))"
    using c(2) by (simp add: trackAfter_Frame [OF b(1)] trackAfter_Frame [OF c(1)] trackAfter_Nil)
  ultimately show ?thesis
    by (simp add: survivor_fields example_fields)
qed

text \<open>
  Claim C7, amended. A tick moves the 3D position of every track it keeps towards the
  position computed from its box, by the fraction 0.9 of the gap when the rapid-motion
  flag is set and 0.2 otherwise, so the position neither passes the target nor moves by
  more than the gap; the tick does not change the smoothed box. The box moves when a
  detection is matched to the track: towards the scaled detection box, by the fraction
  0.5 of the gap when the processing interval exceeds 300 ms and 0.4 otherwise, again
  without passing it; the match leaves the position alone.
\<close>

theorem C7_smoothing:
  assumes "wellFormed s" "map_of (trackers s) k = Some t"
    and "innerWidth e \<noteq> 0" "innerHeight e \<noteq> 0" "set av \<subseteq> keys s"
  shows "(\<exists>s' out calc. updateVisualsAndPhysics e now s = Inr (s', out)
           \<and> calcFor e t = Inr calc
           \<and> (case map_of (trackers s') k of
                 None \<Rightarrow> now - lastSeenTime t > 500 \<and> opacity t - 0.05 < 0.05
               | Some t' \<Rightarrow> lockedBox t' = lockedBox t \<and> target (physics t') = calc
                   \<and> current (physics t') =
                       approach (current (physics t)) calc (if isMovingFast e then 0.9 else 0.2)
                   \<and> vecTowards (current (physics t)) calc (current (physics t'))))
       \<and> (\<exists>s' av' cl' ac' t'.
             processPrediction e' now' sf pred (s, av, cl, ac) = Inr (s', av', cl', ac')
           \<and> map_of (trackers s') k = Some t' \<and> physics t' = physics t
           \<and> (if k \<in> set av \<and> k \<notin> set av'
               then lockedBox t' = lerpBox (lockedBox t) (scaleBox (p_bbox pred) sf)
                                     (if processingInterval e' > 300 then 0.5 else 0.4)
                    \<and> boxTowards (lockedBox t) (scaleBox (p_bbox pred) sf) (lockedBox t')
               else lockedBox t' = lockedBox t))"
proof -
  from tick_tracker [OF assms(1,3,4,2), of now] obtain s' out calc where
    a: "updateVisualsAndPhysics e now s = Inr (s', out)" "calcFor e t = Inr calc"
      "if evicts now t
         then gone k s' \<and> k \<notin> o_id ` set out
         else map_of (trackers s') k = Some (scanned (moved e now calc t))
              \<and> toObject e now (scanned (moved e now calc t)) \<in> set out"
    by blast
  have v: "vecTowards (current (physics t)) calc
             (approach (current (physics t)) calc (if isMovingFast e then 0.9 else 0.2))"
    by (intro approach_towards) simp_all
  have tick: "case map_of (trackers s') k of
                 None \<Rightarrow> now - lastSeenTime t > 500 \<and> opacity t - 0.05 < 0.05
               | Some t' \<Rightarrow> lockedBox t' = lockedBox t \<and> target (physics t') = calc
                   \<and> current (physics t') =
                       approach (current (physics t)) calc (if isMovingFast e then 0.9 else 0.2)
                   \<and> vecTowards (current (physics t)) calc (current (physics t'))"
  proof (cases "evicts now t")
    case True
    then have "map_of (trackers s') k = None"
      using a(3) by (simp add: gone_def keys_def map_of_eq_None_iff)
    with True show ?thesis
      by (simp add: evicts_def isLost_def)
  next
    case False
    then show ?thesis
      using a(3) v by (simp add: survivor_fields)
  qed
  from processPrediction_tracker [OF assms(1,5,2), of e' now' sf pred cl ac]
  obtain s2 av' cl' ac' where
    b: "processPrediction e' now' sf pred (s, av, cl, ac) = Inr (s2, av', cl', ac')"
      "if k \<in> set av \<and> k \<notin> set av'
         then map_of (trackers s2) k = Some (matchUpdate e' now' sf pred t)
              \<and> t_class t = p_class pred \<and> \<not> score pred < 0.2
         else map_of (trackers s2) k = Some t"
    by blast
  have w: "boxTowards (lockedBox t) (scaleBox (p_bbox pred) sf)
             (lerpBox (lockedBox t) (scaleBox (p_bbox pred) sf)
                (if processingInterval e' > 300 then 0.5 else 0.4))"
    by (intro lerpBox_towards) simp_all
  have "\<exists>t'. map_of (trackers s2) k = Some t' \<and> physics t' = physics t
           \<and> (if k \<in> set av \<and> k \<notin> set av'
               then lockedBox t' = lerpBox (lockedBox t) (scaleBox (p_bbox pred) sf)
                                     (if processingInterval e' > 300 then 0.5 else 0.4)
                    \<and> boxTowards (lockedBox t) (scaleBox (p_bbox pred) sf) (lockedBox t')
               else lockedBox t' = lockedBox t)"
    using b(2) w by (cases "k \<in> set av \<and> k \<notin> set av'") (auto simp: matchUpdate_fields)
  with a(1,2) tick b(1) show ?thesis
    by blast
qed

lemma example_batch:
  "handleWorkerPredictions exampleEnv 100 100 [examplePrediction bw] 1 (exampleState 1)
     = Inr (matchedState bw, None)"
proof -
  have k: "map fst (trackers (exampleState 1)) = [1]"
    by (simp add: exampleState_def)
  have m: "\<not> isMovingFast exampleEnv"
    by (simp add: exampleEnv_def)
  have l: "predictionsLoop exampleEnv 100 1 [examplePrediction bw] (exampleState 1, [1], [], [])
         = Inr (matchedState bw, [], [''person''], [1])"
    by (simp only: predictionsLoop.simps example_match sum.case matchedState_def)
  have c: "checkSceneChange exampleEnv 100 [1] [''person''] (matchedState bw)
         = (matchedState bw, None)"
    by (simp add: checkSceneChange_def matchedState_def exampleState_def)
  show ?thesis
    unfolding handleWorkerPredictions_def k l using m c by simp
qed

lemma example_env_fields:
  "processingInterval exampleEnv = 200" "\<not> isMovingFast exampleEnv"
  by (simp_all add: exampleEnv_def)

lemma example_scaled: "scaleBox (p_bbox (examplePrediction bw)) 1 = (100, 100, bw, 50)"
  by (simp add: examplePrediction_def scaleBox_def)

lemma rapid_batch:
  "handleWorkerPredictions rapidEnv now now' preds sf s = Inr (s, None)"
  by (simp add: handleWorkerPredictions_def rapidEnv_def)

lemma matchedState_facts:
  "wellFormed (matchedState bw)"
  "map_of (trackers (matchedState bw)) 1
     = Some (matchUpdate exampleEnv 100 1 (examplePrediction bw) (exampleTracker 1))"
  by (simp_all add: wellFormed_def matchedState_def exampleState_def matchUpdate_fields
      example_fields)

lemma matched_box:
  "lockedBox (matchUpdate exampleEnv 100 1 (examplePrediction 150) (exampleTracker 1))
     = (100, 100, 90, 50)"
  by (simp add: matchUpdate_fields example_fields examplePrediction_def scaleBox_def
      lerpBox_def example_env_fields)

lemma trackAfter_Detections:
  assumes "handleWorkerPredictions e now now' preds sf s = Inr (s', ev)"
  shows "trackAfter (Detections e now now' preds sf # ins) s k = trackAfter ins s' k"
  using assms by (auto simp: trackAfter_def split: sum.splits)

lemma rapid_viewport: "innerWidth rapidEnv \<noteq> 0" "innerHeight rapidEnv \<noteq> 0"
  by (simp_all add: rapidEnv_def exampleEnv_def)

text \<open>
  Claim C7 as stated fails for the box. With the rapid-motion flag set a batch is dropped
  and the box does not move at all; with the flag clear a matched detection of width 150
  moves the width from 50 to 90 (the fraction 0.4), and a tick that follows leaves the box
  at 90, with the flag clear and with the flag set.
\<close>

theorem C7_counterexample:
  "handleWorkerPredictions rapidEnv 100 100 [examplePrediction 150] 1 (exampleState 1)
     = Inr (exampleState 1, None)
   \<and> map_option lockedBox
        (trackAfter [Detections exampleEnv 100 100 [examplePrediction 150] 1]
           (exampleState 1) 1) = Some (100, 100, 90, 50)
   \<and> map_option lockedBox
        (trackAfter [Detections exampleEnv 100 100 [examplePrediction 150] 1,
                     Frame exampleEnv 116] (exampleState 1) 1) = Some (100, 100, 90, 50)
   \<and> map_option lockedBox
        (trackAfter [Detections exampleEnv 100 100 [examplePrediction 150] 1,
                     Frame rapidEnv 116] (exampleState 1) 1) = Some (100, 100, 90, 50)"
proof -
  let ?t = "matchUpdate exampleEnv 100 1 (examplePrediction 150) (exampleTracker 1)"
  have n: "\<not> evicts 116 ?t"
    by (simp add: evicts_def isLost_def matchUpdate_fields)
  from tick_survivor [OF matchedState_facts(1) example_viewport matchedState_facts(2) n]
  obtain sA outA calcA where
    a: "updateVisualsAndPhysics exampleEnv 116 (matchedState 150) = Inr (sA, outA)"
      "map_of (trackers sA) 1 = Some (scanned (moved exampleEnv 116 calcA ?t))"
    by blast
  from tick_survivor [OF matchedState_facts(1) rapid_viewport matchedState_facts(2) n]
  obtain sB outB calcB where
    b: "updateVisualsAndPhysics rapidEnv 116 (matchedState 150) = Inr (sB, outB)"
      "map_of (trackers sB) 1 = Some (scanned (moved rapidEnv 116 calcB ?t))"
    by blast
  have 1: "trackAfter [Detections exampleEnv 100 100 [examplePrediction 150] 1]
           (exampleState 1) 1 = Some ?t"
    using matchedState_facts(2) [of 150]
    by (simp add: trackAfter_Detections [OF example_batch] trackAfter_Nil)
  have 2: "trackAfter [Detections exampleEnv 100 100 [examplePrediction 150] 1,
                     Frame exampleEnv 116] (exampleState 1) 1
           = Some (scanned (moved exampleEnv 116 calcA ?t))"
    using a(2)
    by (simp add: trackAfter_Detections [OF example_batch] trackAfter_Frame [OF a(1)]
        trackAfter_Nil)
  have 3: "trackAfter [Detections exampleEnv 100 100 [examplePrediction 150] 1,
                     Frame rapidEnv 116] (exampleState 1) 1
           = Some (scanned (moved rapidEnv 116 calcB ?t))"
    using b(2)
    by (simp add: trackAfter_Detections [OF example_batch] trackAfter_Frame [OF b(1)]
        trackAfter_Nil)
  show ?thesis
    unfolding 1 2 3 by (simp add: rapid_batch survivor_fields matched_box)
qed

theorem C7_smoothing_witness:
  "wellFormed (exampleState 1) \<and> map_of (trackers (exampleState 1)) 1 = Some (exampleTracker 1)
   \<and> innerWidth exampleEnv \<noteq> 0 \<and> innerHeight exampleEnv \<noteq> 0
   \<and> set [1] \<subseteq> keys (exampleState 1)
   \<and> (\<exists>s' out calc t'. updateVisualsAndPhysics exampleEnv 100 (exampleState 1) = Inr (s', out)
         \<and> calcFor exampleEnv (exampleTracker 1) = Inr calc
         \<and> map_of (trackers s') 1 = Some t' \<and> lockedBox t' = (100, 100, 50, 50)
         \<and> current (physics t') = approach placeholder calc 0.2
         \<and> vecTowards placeholder calc (current (physics t')))
   \<and> (\<exists>s' av' cl' ac' t'.
         processPrediction exampleEnv 100 1 (examplePrediction 150)
           (exampleState 1, [1], [], []) = Inr (s', av', cl', ac')
         \<and> map_of (trackers s') 1 = Some t' \<and> lockedBox t' = (100, 100, 90, 50)
         \<and> boxTowards (100, 100, 50, 50) (100, 100, 150, 50) (lockedBox t'))"
proof -
  have k: "set [1] \<subseteq> keys (exampleState 1)"
    by (simp add: keys_def exampleState_def)
  have cur: "current (physics (exampleTracker 1)) = placeholder"
    by (simp add: exampleTracker_def newTracker_def)
  note th = C7_smoothing [OF wellFormed_example example_lookup example_viewport k,
      of 100 exampleEnv 100 1 "examplePrediction 150" "[]" "[]"]
  from th obtain s' out calc where
    a: "updateVisualsAndPhysics exampleEnv 100 (exampleState 1) = Inr (s', out)"
      "calcFor exampleEnv (exampleTracker 1) = Inr calc"
      "case map_of (trackers s') 1 of
         None \<Rightarrow> 100 - lastSeenTime (exampleTracker 1) > 500
                 \<and> opacity (exampleTracker 1) - 0.05 < 0.05
       | Some t' \<Rightarrow> lockedBox t' = lockedBox (exampleTracker 1)
           \<and> target (physics t') = calc
           \<and> current (physics t') =
               approach (current (physics (exampleTracker 1))) calc
                 (if isMovingFast exampleEnv then 0.9 else 0.2)
           \<and> vecTowards (current (physics (exampleTracker 1))) calc (current (physics t'))"
    by blast
  from a(3) obtain t' where "map_of (trackers s') 1 = Some t'"
      "lockedBox t' = (100, 100, 50, 50)"
      "current (physics t') = approach placeholder calc 0.2"
      "vecTowards placeholder calc (current (physics t'))"
    by (cases "map_of (trackers s') 1") (auto simp: example_fields cur example_env_fields)
  with a(1,2) have tick: "\<exists>s' out calc t'.
         updateVisualsAndPhysics exampleEnv 100 (exampleState 1) = Inr (s', out)
         \<and> calcFor exampleEnv (exampleTracker 1) = Inr calc
         \<and> map_of (trackers s') 1 = Some t' \<and> lockedBox t' = (100, 100, 50, 50)
         \<and> current (physics t') = approach placeholder calc 0.2
         \<and> vecTowards placeholder calc (current (physics t'))"
    by blast
  from th [THEN conjunct2] have "\<exists>s' av' cl' ac' t'.
         processPrediction exampleEnv 100 1 (examplePrediction 150)
           (exampleState 1, [1], [], []) = Inr (s', av', cl', ac')
         \<and> map_of (trackers s') 1 = Some t' \<and> lockedBox t' = (100, 100, 90, 50)
         \<and> boxTowards (100, 100, 50, 50) (100, 100, 150, 50) (lockedBox t')"
    unfolding example_match
    by (simp add: example_fields example_scaled matched_box example_env_fields lerpBox_def)
  with tick k wellFormed_example example_lookup example_viewport show ?thesis
    by blast
qed

lemma candidate_store:
  assumes "candidate reg c i" "map_of reg tid = Some t" "t_class t' = t_class t"
  shows "candidate (store tid t' reg) c i"
  using assms by (auto simp: candidate_def map_of_store split: option.splits)

lemma candidate_append:
  assumes "candidate reg c i"
  shows "candidate (reg @ kvs) c i"
  using assms by (auto simp: candidate_def map_add_def split: option.splits)

lemma candidate_key: "candidate reg c i \<Longrightarrow> i \<in> fst ` set reg"
  by (auto simp: candidate_def split: option.splits dest!: map_of_SomeD intro: rev_image_eqI)

lemma processPrediction_active:
  assumes "wellFormed s" "set av \<subseteq> keys s" "set av \<inter> set ac = {}" "distinct ac"
    and "list_all2 (\<lambda>i c. candidate (trackers s) c i) ac cl"
    and "processPrediction e now sf pred (s, av, cl, ac) = Inr (s', av', cl', ac')"
  shows "set av' \<inter> set ac' = {} \<and> distinct ac'
     \<and> list_all2 (\<lambda>i c. candidate (trackers s') c i) ac' cl'"
proof (cases "score pred < 0.2")
  case True
  with assms show ?thesis
    by (simp add: processPrediction_low)
next
  case False
  let ?sb = "scaleBox (p_bbox pred) sf"
  let ?D = "cornerDist (trackers s) (fst ?sb) (fst (snd ?sb))"
  let ?C = "candidate (trackers s) (p_class pred)"
  have ack: "set ac \<subseteq> keys s"
    using assms(5) candidate_key unfolding keys_def list_all2_conv_all_nth
    by (metis in_set_conv_nth subsetI)
  show ?thesis
  proof (cases "\<exists>u \<in> set av. ?C u \<and> ?D u < 200")
    case True
    have z: "0 \<notin> set av"
      using assms(1,2) by (fastforce simp: wellFormed_def keys_def)
    from processPrediction_match [OF False assms(2) z True, of e now cl ac]
    obtain pre tid post t where
      p: "av = pre @ tid # post" "map_of (trackers s) tid = Some t" "t_class t = p_class pred"
        "processPrediction e now sf pred (s, av, cl, ac) =
         Inr (s\<lparr>trackers := store tid (matchUpdate e now sf pred t) (trackers s)\<rparr>,
              removeAll tid av, cl @ [p_class pred], set_add tid ac)"
      unfolding matchUpdate_def by blast
    have r: "s' = s\<lparr>trackers := store tid (matchUpdate e now sf pred t) (trackers s)\<rparr>"
        "av' = removeAll tid av" "cl' = cl @ [p_class pred]" "ac' = set_add tid ac"
      using p(4) assms(6) by simp_all
    have notin: "tid \<notin> set ac"
      using p(1) assms(3) by auto
    have tk: "tid \<in> fst ` set (trackers s)"
      using wf_lookup(4) [OF assms(1) p(2)] by (simp add: keys_def)
    have old: "list_all2 (\<lambda>i c. candidate (trackers s') c i) ac cl"
      using assms(5) unfolding r(1)
      by (auto elim!: list_all2_mono intro: candidate_store [OF _ p(2)]
          simp: matchUpdate_fields)
    have new: "candidate (trackers s') (p_class pred) tid"
      unfolding r(1) using tk p(3) by (simp add: candidate_def map_of_store matchUpdate_fields)
    show ?thesis
      using notin assms(3,4) old new unfolding r(2,3,4)
      by (auto simp: set_add_def list_all2_appendI)
  next
    case none: False
    then have all: "\<forall>u \<in> set av. ?C u \<longrightarrow> 200 \<le> ?D u"
      by auto
    note c = processPrediction_create [OF False assms(2) all, of e now cl ac]
    note w = wf_create [OF assms(1), of e now pred ?sb]
    have fresh: "nextId s \<notin> keys s"
      using assms(1) by (auto simp: wellFormed_def keys_def)
    have r: "trackers s' = trackers s @ [(nextId s, newTracker e now (nextId s) pred ?sb)]"
        "av' = av" "cl' = cl @ [p_class pred]" "ac' = set_add (nextId s) ac"
      using c assms(6) w(2) by auto
    have old: "list_all2 (\<lambda>i c. candidate (trackers s') c i) ac cl"
      using assms(5) unfolding r(1) by (auto elim!: list_all2_mono intro: candidate_append)
    have "map_of (trackers s) (nextId s) = None"
      using fresh by (simp add: keys_def map_of_eq_None_iff)
    then have new: "candidate (trackers s') (p_class pred) (nextId s)"
      unfolding r(1) by (simp add: candidate_def map_add_def newTracker_def)
    show ?thesis
      using fresh ack assms(2,3,4) old new unfolding r(2,3,4)
      by (auto simp: set_add_def list_all2_appendI)
  qed
qed

lemma predictionsLoop_active:
  assumes "wellFormed s" "set av \<subseteq> keys s" "set av \<inter> set ac = {}" "distinct ac"
    and "list_all2 (\<lambda>i c. candidate (trackers s) c i) ac cl"
    and "predictionsLoop e now sf preds (s, av, cl, ac) = Inr (s', av', cl', ac')"
  shows "set av' \<inter> set ac' = {} \<and> distinct ac'
     \<and> list_all2 (\<lambda>i c. candidate (trackers s') c i) ac' cl'"
  using assms
proof (induction preds arbitrary: s av cl ac)
  case Nil
  then show ?case by simp
next
  case (Cons pred preds)
  from processPrediction_step [OF Cons.prems(1,2), of e now sf pred cl ac]
  obtain s1 av1 ac1 where
    a: "processPrediction e now sf pred (s, av, cl, ac)
            = Inr (s1, av1, cl @ (if score pred < 0.2 then [] else [p_class pred]), ac1)"
      "wellFormed s1" "set av1 \<subseteq> keys s1"
    by blast
  from processPrediction_active [OF Cons.prems(1-5) a(1)]
  have b: "set av1 \<inter> set ac1 = {}" "distinct ac1"
      "list_all2 (\<lambda>i c. candidate (trackers s1) c i) ac1
         (cl @ (if score pred < 0.2 then [] else [p_class pred]))"
    by simp_all
  have "predictionsLoop e now sf preds
          (s1, av1, cl @ (if score pred < 0.2 then [] else [p_class pred]), ac1)
        = Inr (s', av', cl', ac')"
    using Cons.prems(6) a(1) by simp
  from Cons.IH [OF a(2,3) b this] show ?case .
qed

text \<open>
  While the rapid-motion flag is set a batch is dropped: nothing is matched, created or
  reported.
\<close>

lemma handleWorkerPredictions_rapid:
  "isMovingFast e \<Longrightarrow> handleWorkerPredictions e now now' preds sf s = Inr (s, None)"
  by (simp add: handleWorkerPredictions_def)

text \<open>
  The set \<^verbatim>\<open>activeIds\<close> holds the tracks that the batch has matched (they left the
  available set) and those it has created.
\<close>

lemma processPrediction_ids:
  assumes "wellFormed s" "set av \<subseteq> keys s"
    and "processPrediction e now sf pred (s, av, cl, ac) = Inr (s', av', cl', ac')"
  shows "set ac' = set ac \<union> (set av - set av') \<union> (keys s' - keys s)"
proof (cases "score pred < 0.2")
  case True
  with assms(3) show ?thesis
    by (auto simp: processPrediction_low)
next
  case False
  let ?sb = "scaleBox (p_bbox pred) sf"
  let ?D = "cornerDist (trackers s) (fst ?sb) (fst (snd ?sb))"
  let ?C = "candidate (trackers s) (p_class pred)"
  show ?thesis
  proof (cases "\<exists>u \<in> set av. ?C u \<and> ?D u < 200")
    case True
    have z: "0 \<notin> set av"
      using assms(1,2) by (fastforce simp: wellFormed_def keys_def)
    from processPrediction_match [OF False assms(2) z True, of e now cl ac]
    obtain pre tid post t where
      p: "av = pre @ tid # post"
        "processPrediction e now sf pred (s, av, cl, ac) =
         Inr (s\<lparr>trackers := store tid (matchUpdate e now sf pred t) (trackers s)\<rparr>,
              removeAll tid av, cl @ [p_class pred], set_add tid ac)"
      unfolding matchUpdate_def by blast
    have r: "s' = s\<lparr>trackers := store tid (matchUpdate e now sf pred t) (trackers s)\<rparr>"
        "av' = removeAll tid av" "ac' = set_add tid ac"
      using p(2) assms(3) by simp_all
    have "keys s' = keys s"
      unfolding r(1) by (simp add: keys_def)
    moreover have "set av - set av' = {tid}"
      unfolding r(2) using p(1) by auto
    moreover have "set ac' = insert tid (set ac)"
      unfolding r(3) by (auto simp: set_add_def)
    ultimately show ?thesis
      by auto
  next
    case none: False
    then have all: "\<forall>u \<in> set av. ?C u \<longrightarrow> 200 \<le> ?D u"
      by auto
    note c = processPrediction_create [OF False assms(2) all, of e now cl ac]
    note w = wf_create [OF assms(1), of e now pred ?sb]
    have fresh: "nextId s \<notin> keys s"
      using assms(1) by (auto simp: wellFormed_def keys_def)
    have r: "trackers s' = trackers s @ [(nextId s, newTracker e now (nextId s) pred ?sb)]"
        "av' = av" "ac' = set_add (nextId s) ac"
      using c assms(3) w(2) by auto
    have "keys s' = insert (nextId s) (keys s)"
      using r(1) by (auto simp: keys_def)
    moreover have "set ac' = insert (nextId s) (set ac)"
      unfolding r(3) by (auto simp: set_add_def)
    ultimately show ?thesis
      using fresh r(2) by auto
  qed
qed

lemma predictionsLoop_ids:
  assumes "wellFormed s" "set av \<subseteq> keys s"
    and "predictionsLoop e now sf preds (s, av, cl, ac) = Inr (s', av', cl', ac')"
  shows "set ac' = set ac \<union> (set av - set av') \<union> (keys s' - keys s)"
  using assms
proof (induction preds arbitrary: s av cl ac)
  case Nil
  then show ?case by auto
next
  case (Cons pred preds)
  from processPrediction_step [OF Cons.prems(1,2), of e now sf pred cl ac]
  obtain s1 av1 ac1 where
    a: "processPrediction e now sf pred (s, av, cl, ac)
            = Inr (s1, av1, cl @ (if score pred < 0.2 then [] else [p_class pred]), ac1)"
      "wellFormed s1" "set av1 \<subseteq> keys s1" "set av1 \<subseteq> set av" "grows s s1"
    by blast
  have rest: "predictionsLoop e now sf preds
          (s1, av1, cl @ (if score pred < 0.2 then [] else [p_class pred]), ac1)
        = Inr (s', av', cl', ac')"
    using Cons.prems(3) a(1) by simp
  from predictionsLoop_run [OF a(2,3), of e now sf preds
      "cl @ (if score pred < 0.2 then [] else [p_class pred])" ac1] rest
  have b: "set av' \<subseteq> set av1" "grows s1 s'"
    by auto
  have 1: "set ac1 = set ac \<union> (set av - set av1) \<union> (keys s1 - keys s)"
    by (rule processPrediction_ids [OF Cons.prems(1,2) a(1)])
  have 2: "set ac' = set ac1 \<union> (set av1 - set av') \<union> (keys s' - keys s1)"
    by (rule Cons.IH [OF a(2,3) rest])
  have k: "keys s \<subseteq> keys s1" "keys s1 \<subseteq> keys s'"
    using a(5) b(2) by (simp_all add: grows_def)
  show ?case
    unfolding 2 1 using a(4) b(1) k by blast
qed

lemma trackClass_candidates:
  assumes "list_all2 (\<lambda>i c. candidate reg c i) ids cls"
  shows "map (trackClass reg) ids = cls"
  using assms
  by (induction ids cls rule: list_all2_induct)
    (auto simp: trackClass_def candidate_def split: option.splits)

text \<open>
  Claim C5, amended. An association pass (a batch that is not dropped for rapid motion)
  computes the signature of the active tracks, the tracks \<open>ac\<close> that the pass matched or
  created: their classes, sorted and joined with commas. It emits an event exactly when
  this signature differs from the last reported one and at least 2000 ms have passed
  since the last evaluation that was not suppressed, which stores its time whether or not
  it reports. The mode is the one of the mounted component, which is not SILENT.
\<close>

theorem C5_scene_change:
  assumes "wellFormed s" "\<not> isMovingFast e" "analysisMode e \<noteq> SILENT"
  shows "\<exists>s1 av ac s' ev.
       predictionsLoop e now sf preds (s, map fst (trackers s), [], [])
         = Inr (s1, av, map p_class (filter (\<lambda>p. \<not> score p < 0.2) preds), ac)
     \<and> handleWorkerPredictions e now now' preds sf s = Inr (s', ev)
     \<and> trackers s' = trackers s1
     \<and> set ac = (keys s - set av) \<union> (keys s' - keys s) \<and> distinct ac
     \<and> signature preds = join '','' (sort (map (trackClass (trackers s')) ac))
     \<and> (ev \<noteq> None \<longleftrightarrow>
          2000 \<le> now' - lastAnalysisTime s \<and> signature preds \<noteq> lastObjectSet s)
     \<and> lastAnalysisTime s' =
          (if now' - lastAnalysisTime s < 2000 then lastAnalysisTime s else now')
     \<and> lastObjectSet s' = (if ev \<noteq> None then signature preds else lastObjectSet s)"
proof -
  let ?cl = "map p_class (filter (\<lambda>p. \<not> score p < 0.2) preds)"
  from handleWorkerPredictions_result [OF assms(1,2), of now sf preds now']
  obtain s1 av ac where
    r: "predictionsLoop e now sf preds (s, map fst (trackers s), [], []) = Inr (s1, av, ?cl, ac)"
      "wellFormed s1" "grows s s1"
      "handleWorkerPredictions e now now' preds sf s = Inr (checkSceneChange e now' ac ?cl s1)"
    by blast
  have k: "set (map fst (trackers s)) \<subseteq> keys s"
    by (simp add: keys_def)
  from predictionsLoop_active [OF assms(1) k _ _ _ r(1)]
  have act: "distinct ac" "list_all2 (\<lambda>i c. candidate (trackers s1) c i) ac ?cl"
    by simp_all
  from predictionsLoop_ids [OF assms(1) k r(1)]
  have ids: "set ac = (keys s - set av) \<union> (keys s1 - keys s)"
    by (simp add: keys_def)
  let ?r = "checkSceneChange e now' ac ?cl s1"
  have same: "lastAnalysisTime s1 = lastAnalysisTime s" "lastObjectSet s1 = lastObjectSet s"
    using r(3) by (simp_all add: grows_def)
  have ev: "snd ?r \<noteq> None \<longleftrightarrow>
          2000 \<le> now' - lastAnalysisTime s \<and> signature preds \<noteq> lastObjectSet s"
    unfolding checkSceneChange_event same signature_def using assms(3) by simp
  have st: "lastAnalysisTime (fst ?r) =
          (if now' - lastAnalysisTime s < 2000 then lastAnalysisTime s else now')"
      "lastObjectSet (fst ?r) =
          (if now' - lastAnalysisTime s < 2000 then lastObjectSet s else signature preds)"
    using same by (simp_all add: checkSceneChange_state signature_def)
  have st2: "lastObjectSet (fst ?r) = (if snd ?r \<noteq> None then signature preds else lastObjectSet s)"
    unfolding st(2) ev by auto
  have tr: "trackers (fst ?r) = trackers s1"
    by (rule checkSceneChange_frame)
  have ky: "keys (fst ?r) = keys s1"
    using tr by (simp add: keys_def)
  have sg: "signature preds = join '','' (sort (map (trackClass (trackers (fst ?r))) ac))"
    unfolding tr trackClass_candidates [OF act(2)] signature_def by (rule refl)
  have h: "handleWorkerPredictions e now now' preds sf s = Inr (fst ?r, snd ?r)"
    using r(4) by simp
  have i2: "set ac = (keys s - set av) \<union> (keys (fst ?r) - keys s)"
    unfolding ky by (rule ids)
  from r(1) h tr i2 act(1) sg ev st(1) st2 show ?thesis
    by blast
qed

theorem C5_scene_change_witness:
  "wellFormed (exampleState 1) \<and> \<not> isMovingFast exampleEnv \<and> analysisMode exampleEnv \<noteq> SILENT
   \<and> (\<exists>s' ev. handleWorkerPredictions exampleEnv 5000 5000 [examplePrediction 50] 1
                  (exampleState 1) = Inr (s', ev)
         \<and> ev \<noteq> None \<and> lastAnalysisTime s' = 5000 \<and> lastObjectSet s' = ''person'')"
proof -
  have l: "lastAnalysisTime (exampleState 1) = 0" "lastObjectSet (exampleState 1) = []"
    by (simp_all add: exampleState_def)
  have m: "analysisMode exampleEnv \<noteq> SILENT"
    by (simp add: exampleEnv_def)
  have g: "signature [examplePrediction 50] = ''person''"
    by (simp add: signature_def examplePrediction_def)
  from C5_scene_change [OF wellFormed_example example_env_fields(2) m,
      of 5000 1 "[examplePrediction 50]" 1 5000]
  obtain s' ev where
    a: "handleWorkerPredictions exampleEnv 5000 5000 [examplePrediction 50] 1
          (exampleState 1) = Inr (s', ev)"
      "ev \<noteq> None \<longleftrightarrow>
          2000 \<le> 5000 - lastAnalysisTime (exampleState 1)
          \<and> signature [examplePrediction 50] \<noteq> lastObjectSet (exampleState 1)"
      "lastAnalysisTime s' =
          (if 5000 - lastAnalysisTime (exampleState 1) < 2000
           then lastAnalysisTime (exampleState 1) else 5000)"
      "lastObjectSet s' = (if ev \<noteq> None then signature [examplePrediction 50]
                           else lastObjectSet (exampleState 1))"
    by blast
  from a(2) have e: "ev \<noteq> None"
    unfolding l g by simp
  from a(3) have t: "lastAnalysisTime s' = 5000"
    unfolding l by simp
  from a(4) e have o: "lastObjectSet s' = ''person''"
    unfolding g by simp
  from a(1) e t o wellFormed_example example_env_fields(2) m show ?thesis
    by blast
qed

lemma sceneState1_eq:
  "sceneState1 = initialState\<lparr>lastObjectSet := ''person'', lastAnalysisTime := 10000\<rparr>"
  by (simp add: sceneState1_def checkSceneChange_def initialState_def Let_def)

lemma sceneState2_eq:
  "sceneState2 = initialState\<lparr>lastObjectSet := ''person'', lastAnalysisTime := 13000\<rparr>"
  by (simp add: sceneState2_def sceneState1_eq checkSceneChange_def initialState_def Let_def)

text \<open>
  Claim C5 as stated fails. After a report at 10000 and an evaluation without change at
  13000, a changed signature at 14000 is suppressed although the previous report is
  4000 ms old: the 2000 ms run from the last evaluation.
\<close>

theorem C5_counterexample:
  "snd (checkSceneChange exampleEnv 10000 [] [''person''] initialState)
     = Some (SceneChange [(''person'', 1)])
   \<and> snd (checkSceneChange exampleEnv 13000 [] [''person''] sceneState1) = None
   \<and> snd (checkSceneChange exampleEnv 14000 [] [''cup''] sceneState2) = None
   \<and> join '','' (sort [''cup'']) \<noteq> lastObjectSet sceneState2"
  by (simp add: sceneState1_eq sceneState2_eq checkSceneChange_def initialState_def Let_def
      exampleEnv_def countClasses_def)

text \<open>
  Claim C1, amended. Take a batch that is not dropped for rapid motion, started in a
  well-formed state, and a detection of it with a score of at least 0.2, reached with the
  loop variables \<open>(s1, av, cl, ac)\<close>. The available trackers \<open>av\<close> are tracks that were
  in the registry when the batch started and are none of the tracks \<open>ac\<close> that earlier
  detections of the batch have matched or created. The box of the detection is scaled by the scale factor. When an available
  tracker of the detection's class has its top-left corner at a Euclidean distance below
  200 from the one of the scaled box, the detection is matched to the first available
  tracker of that class whose distance is minimal: the track is updated and leaves the
  available set. Otherwise a track is created under the id \<open>nextId\<close>, which is in neither
  the registry nor the labels, with the scaled box, the position \<open>(0, 0, -10)\<close> and
  opacity 1.
\<close>

theorem C1_association:
  assumes "wellFormed s" "\<not> score pred < 0.2"
    and "predictionsLoop e now sf before (s, map fst (trackers s), [], []) = Inr (s1, av, cl, ac)"
  shows "set av \<subseteq> keys s \<and> set av \<subseteq> keys s1 \<and> set av \<inter> set ac = {}
     \<and> (if \<exists>u \<in> set av. inGate (trackers s1) pred sf u
         then \<exists>pre tid post t. av = pre @ tid # post
                \<and> map_of (trackers s1) tid = Some t \<and> t_class t = p_class pred
                \<and> detDist (trackers s1) pred sf tid < 200
                \<and> (\<forall>u \<in> set pre. candidate (trackers s1) (p_class pred) u \<longrightarrow>
                       detDist (trackers s1) pred sf tid < detDist (trackers s1) pred sf u)
                \<and> (\<forall>u \<in> set post. candidate (trackers s1) (p_class pred) u \<longrightarrow>
                       detDist (trackers s1) pred sf tid \<le> detDist (trackers s1) pred sf u)
                \<and> processPrediction e now sf pred (s1, av, cl, ac) =
                     Inr (s1\<lparr>trackers := store tid (matchUpdate e now sf pred t) (trackers s1)\<rparr>,
                          removeAll tid av, cl @ [p_class pred], set_add tid ac)
         else nextId s1 \<notin> keys s1 \<and> nextId s1 \<notin> labels s1
                \<and> processPrediction e now sf pred (s1, av, cl, ac) =
                     Inr (s1\<lparr>nextId := nextId s1 + 1,
                             labels := insert (nextId s1) (labels s1),
                             trackers := trackers s1 @
                               [(nextId s1, newTracker e now (nextId s1) pred
                                              (scaleBox (p_bbox pred) sf))]\<rparr>,
                          av, cl @ [p_class pred], set_add (nextId s1) ac)
                \<and> t_id (newTracker e now (nextId s1) pred (scaleBox (p_bbox pred) sf))
                     = nextId s1
                \<and> lockedBox (newTracker e now (nextId s1) pred (scaleBox (p_bbox pred) sf))
                     = scaleBox (p_bbox pred) sf
                \<and> current (physics (newTracker e now (nextId s1) pred
                                        (scaleBox (p_bbox pred) sf)))
                     = \<lparr>vx = 0, vy = 0, vz = - 10\<rparr>
                \<and> opacity (newTracker e now (nextId s1) pred (scaleBox (p_bbox pred) sf)) = 1)"
proof -
  have k: "set (map fst (trackers s)) \<subseteq> keys s"
    by (simp add: keys_def)
  from predictionsLoop_run [OF assms(1) k, of e now sf before "[]" "[]"] assms(3)
  have inv: "wellFormed s1" "set av \<subseteq> keys s1" "set av \<subseteq> keys s"
    by (auto simp: keys_def)
  from predictionsLoop_active [OF assms(1) k _ _ _ assms(3)]
  have dis: "set av \<inter> set ac = {}"
    by simp
  show ?thesis
  proof (cases "\<exists>u \<in> set av. inGate (trackers s1) pred sf u")
    case True
    have z: "0 \<notin> set av"
      using inv(1,2) by (fastforce simp: wellFormed_def keys_def)
    have ex: "\<exists>u \<in> set av. candidate (trackers s1) (p_class pred) u \<and>
           cornerDist (trackers s1) (fst (scaleBox (p_bbox pred) sf))
                    (fst (snd (scaleBox (p_bbox pred) sf))) u < 200"
      using True by (simp add: inGate_def detDist_def)
    from processPrediction_match [OF assms(2) inv(2) z ex, of e now cl ac]
    show ?thesis
      using True inv(2,3) dis unfolding matchUpdate_def detDist_def by simp
  next
    case False
    then have all: "\<forall>u \<in> set av. candidate (trackers s1) (p_class pred) u \<longrightarrow>
           200 \<le> cornerDist (trackers s1) (fst (scaleBox (p_bbox pred) sf))
                    (fst (snd (scaleBox (p_bbox pred) sf))) u"
      by (auto simp: inGate_def detDist_def)
    note c = processPrediction_create [OF assms(2) inv(2) all, of e now cl ac]
    note w = wf_create [OF inv(1), of e now pred "scaleBox (p_bbox pred) sf"]
    have fresh: "nextId s1 \<notin> keys s1" "nextId s1 \<notin> labels s1"
      using inv(1) by (auto simp: wellFormed_def keys_def)
    show ?thesis
      using False inv(2,3) dis fresh c unfolding w(2)
      by (simp add: newTracker_def placeholder_def)
  qed
qed

lemma example_near: "detDist (trackers (exampleState op)) (examplePrediction bw) 1 1 = 0"
  by (simp add: detDist_def cornerDist_def exampleState_def example_fields example_scaled)

lemma example_far: "200 \<le> detDist (trackers (exampleState op)) farPrediction 1 1"
proof -
  have "detDist (trackers (exampleState op)) farPrediction 1 1 = sqrt ((400)\<^sup>2 + (400)\<^sup>2)"
    by (simp add: detDist_def cornerDist_def exampleState_def example_fields farPrediction_def
        scaleBox_def)
  moreover have "200 \<le> sqrt ((400 :: real)\<^sup>2 + (400)\<^sup>2)"
    by (rule real_le_rsqrt) simp
  ultimately show ?thesis
    by simp
qed

lemma example_candidate:
  "candidate (trackers (exampleState op)) ''person'' 1"
  by (simp add: candidate_def exampleState_def example_fields)

lemma example_classes:
  "p_class (examplePrediction bw) = ''person''" "p_class farPrediction = ''person''"
  "\<not> score (examplePrediction bw) < 0.2" "\<not> score farPrediction < 0.2"
  "scaleBox (p_bbox farPrediction) 1 = (500, 500, 50, 50)"
  by (simp_all add: examplePrediction_def farPrediction_def scaleBox_def)

lemma example_keys:
  "map fst (trackers (exampleState op)) = [1]" "keys (exampleState op) = {1}"
  "nextId (exampleState op) = 2" "labels (exampleState op) = {1}"
  by (simp_all add: exampleState_def keys_def)

theorem C1_association_witness:
  "wellFormed (exampleState 1)
   \<and> \<not> score (examplePrediction 50) < 0.2 \<and> \<not> score farPrediction < 0.2
   \<and> predictionsLoop exampleEnv 100 1 []
        (exampleState 1, map fst (trackers (exampleState 1)), [], [])
       = Inr (exampleState 1, [1], [], [])
   \<and> inGate (trackers (exampleState 1)) (examplePrediction 50) 1 1
   \<and> \<not> inGate (trackers (exampleState 1)) farPrediction 1 1
   \<and> processPrediction exampleEnv 100 1 (examplePrediction 50) (exampleState 1, [1], [], [])
       = Inr ((exampleState 1)\<lparr>trackers :=
                 store 1 (matchUpdate exampleEnv 100 1 (examplePrediction 50) (exampleTracker 1))
                   (trackers (exampleState 1))\<rparr>,
              [], [''person''], [1])
   \<and> processPrediction exampleEnv 100 1 farPrediction (exampleState 1, [1], [], [])
       = Inr ((exampleState 1)\<lparr>nextId := 3, labels := {1, 2},
                 trackers := trackers (exampleState 1) @
                   [(2, newTracker exampleEnv 100 2 farPrediction (500, 500, 50, 50))]\<rparr>,
              [1], [''person''], [2])"
proof -
  have l: "predictionsLoop exampleEnv 100 1 []
        (exampleState 1, map fst (trackers (exampleState 1)), [], [])
       = Inr (exampleState 1, [1], [], [])"
    by (simp add: example_keys)
  have near: "inGate (trackers (exampleState 1)) (examplePrediction 50) 1 1"
    using example_near [of 1 50] example_candidate [of 1]
    by (simp add: inGate_def example_classes)
  have far: "\<not> inGate (trackers (exampleState 1)) farPrediction 1 1"
    using example_far [of 1] by (simp add: inGate_def)
  have c: "\<exists>u \<in> set [1]. inGate (trackers (exampleState 1)) (examplePrediction 50) 1 u"
    using near by simp
  note th = C1_association [OF wellFormed_example example_classes(3) [of 50] l]
  from th [THEN conjunct2, THEN conjunct2, THEN conjunct2, unfolded if_P [OF c]]
  obtain pre tid post t where
    m: "[1] = pre @ tid # post" "map_of (trackers (exampleState 1)) tid = Some t"
      "processPrediction exampleEnv 100 1 (examplePrediction 50) (exampleState 1, [1], [], []) =
         Inr ((exampleState 1)\<lparr>trackers :=
                store tid (matchUpdate exampleEnv 100 1 (examplePrediction 50) t)
                  (trackers (exampleState 1))\<rparr>,
              removeAll tid [1], [] @ [p_class (examplePrediction 50)], set_add tid [])"
    by blast
  from m(1) have tid: "tid = 1"
    by (cases pre) auto
  with m(2) have t: "t = exampleTracker 1"
    using example_lookup [of 1] by simp
  have a: "processPrediction exampleEnv 100 1 (examplePrediction 50)
             (exampleState 1, [1], [], [])
       = Inr ((exampleState 1)\<lparr>trackers :=
                 store 1 (matchUpdate exampleEnv 100 1 (examplePrediction 50) (exampleTracker 1))
                   (trackers (exampleState 1))\<rparr>,
              [], [''person''], [1])"
    using m(3) unfolding tid t by (simp add: example_classes set_add_def)
  have d: "\<not> (\<exists>u \<in> set [1]. inGate (trackers (exampleState 1)) farPrediction 1 u)"
    using far by simp
  note th2 = C1_association [OF wellFormed_example example_classes(4) l]
  from th2 [THEN conjunct2, THEN conjunct2, THEN conjunct2, unfolded if_not_P [OF d]]
  have b: "processPrediction exampleEnv 100 1 farPrediction (exampleState 1, [1], [], [])
       = Inr ((exampleState 1)\<lparr>nextId := 3, labels := {1, 2},
                 trackers := trackers (exampleState 1) @
                   [(2, newTracker exampleEnv 100 2 farPrediction (500, 500, 50, 50))]\<rparr>,
              [1], [''person''], [2])"
    by (simp add: example_keys example_classes set_add_def insert_commute)
  from wellFormed_example example_classes(3,4) l near far a b show ?thesis
    by blast
qed

lemma matchedState_fields:
  "nextId (matchedState bw) = 2" "labels (matchedState bw) = {1}"
  "lastAnalysisTime (matchedState bw) = 0" "keys (matchedState bw) = {1}"
  by (simp_all add: matchedState_def exampleState_def keys_def)

lemma twice_batch:
  "handleWorkerPredictions exampleEnv 100 100 [examplePrediction 50, examplePrediction 50] 1
     (exampleState 1) = Inr (twiceState, None)"
proof -
  let ?p = "examplePrediction 50"
  have k: "map fst (trackers (exampleState 1)) = [1]"
    by (rule example_keys)
  have 1: "processPrediction exampleEnv 100 1 ?p (exampleState 1, [1], [], [])
       = Inr (matchedState 50, [], [''person''], [1])"
    by (simp only: example_match matchedState_def)
  have "processPrediction exampleEnv 100 1 ?p (matchedState 50, [], [''person''], [1])
       = Inr ((matchedState 50)\<lparr>nextId := nextId (matchedState 50) + 1,
                labels := insert (nextId (matchedState 50)) (labels (matchedState 50)),
                trackers := map_set (nextId (matchedState 50))
                  (newTracker exampleEnv 100 (nextId (matchedState 50)) ?p
                     (scaleBox (p_bbox ?p) 1)) (trackers (matchedState 50))\<rparr>,
              [], [''person''] @ [p_class ?p], set_add (nextId (matchedState 50)) [1])"
    using example_classes(3) [of 50] by (intro processPrediction_create) simp_all
  then have 2: "processPrediction exampleEnv 100 1 ?p (matchedState 50, [], [''person''], [1])
       = Inr (twiceState, [], [''person'', ''person''], [1, 2])"
    unfolding wf_create(2) [OF matchedState_facts(1)]
    by (simp add: matchedState_fields example_scaled example_classes twiceState_def set_add_def
        insert_commute)
  have l: "predictionsLoop exampleEnv 100 1 [?p, ?p] (exampleState 1, [1], [], [])
         = Inr (twiceState, [], [''person'', ''person''], [1, 2])"
    by (simp only: predictionsLoop.simps 1 2 sum.case)
  have c: "checkSceneChange exampleEnv 100 [1, 2] [''person'', ''person''] twiceState
         = (twiceState, None)"
    by (simp add: checkSceneChange_def twiceState_def matchedState_fields)
  show ?thesis
    unfolding handleWorkerPredictions_def k l using example_env_fields(2) c by simp
qed

text \<open>
  Claim C1 as stated fails in two ways. With the rapid-motion flag set, a detection of
  score 0.9 that has no track of its class within the gate creates no track: the batch is
  dropped. And of two detections of one batch at the place of the only track, the second
  one creates the track 2 although track 1, of its class, lies at distance 0: a track is
  matched at most once per batch.
\<close>

theorem C1_counterexample:
  "\<not> score farPrediction < 0.2
   \<and> \<not> inGate (trackers (exampleState 1)) farPrediction 1 1
   \<and> handleWorkerPredictions rapidEnv 100 100 [farPrediction] 1 (exampleState 1)
       = Inr (exampleState 1, None)
   \<and> inGate (trackers (matchedState 50)) (examplePrediction 50) 1 1
   \<and> map_option lockedBox
        (trackAfter [Detections exampleEnv 100 100 [examplePrediction 50, examplePrediction 50] 1]
           (exampleState 1) 1) = Some (100, 100, 50, 50)
   \<and> map_option lockedBox
        (trackAfter [Detections exampleEnv 100 100 [examplePrediction 50, examplePrediction 50] 1]
           (exampleState 1) 2) = Some (100, 100, 50, 50)
   \<and> map_option t_class
        (trackAfter [Detections exampleEnv 100 100 [examplePrediction 50, examplePrediction 50] 1]
           (exampleState 1) 2) = Some ''person''"
proof -
  let ?t = "matchUpdate exampleEnv 100 1 (examplePrediction 50) (exampleTracker 1)"
  have far: "\<not> inGate (trackers (exampleState 1)) farPrediction 1 1"
    using example_far [of 1] by (simp add: inGate_def)
  have box: "lockedBox ?t = (100, 100, 50, 50)"
    by (simp add: matchUpdate_fields example_fields example_scaled lerpBox_def)
  have near: "inGate (trackers (matchedState 50)) (examplePrediction 50) 1 1"
    using box
    by (simp add: inGate_def detDist_def cornerDist_def candidate_def matchedState_def
        example_scaled example_classes matchUpdate_fields example_fields)
  have 1: "trackAfter [Detections exampleEnv 100 100 [examplePrediction 50, examplePrediction 50] 1]
           (exampleState 1) 1 = Some ?t"
    by (simp add: trackAfter_Detections [OF twice_batch] trackAfter_Nil twiceState_def
        matchedState_def)
  have 2: "trackAfter [Detections exampleEnv 100 100 [examplePrediction 50, examplePrediction 50] 1]
           (exampleState 1) 2
           = Some (newTracker exampleEnv 100 2 (examplePrediction 50) (100, 100, 50, 50))"
    by (simp add: trackAfter_Detections [OF twice_batch] trackAfter_Nil twiceState_def
        matchedState_def)
  show ?thesis
    unfolding 1 2 using far near box example_classes(4)
    by (simp add: rapid_batch example_classes(1,2) newTracker_def)
qed

end
